(* ===== verification/Go_Prelude.thy ===== *)
theory Go_Prelude
  imports Main "HOL-Library.Word"
begin

text \<open>
  The prelude of the development: the Go types the components share, the two ways a Go
  function fails (a panic and an \<^verbatim>\<open>os.Error\<close> value), the copy loop that the library
  writes out by hand (\<^verbatim>\<open>for i := ... { dst[k+i] = src[i] }\<close>), big- and little-endian
  byte splitting, and the division of a byte sequence into blocks. The named collections
  \<open>go_defs\<close> and \<open>go_bytes\<close> carry the facts the component proofs unfold.
\<close>

unbundle bit_operations_syntax

named_theorems go_defs \<open>definitions of the shared Go operations\<close>
named_theorems go_bytes \<open>lengths and slices of byte sequences\<close>

type_synonym byte = "8 word"
type_synonym uint16 = "16 word"
type_synonym uint32 = "32 word"
type_synonym uint64 = "64 word"

text \<open>
  A Go function that can fail returns \<open>Inl\<close> of the failure: \<open>Panic\<close> for a run-time or
  explicit panic, \<open>OsError\<close> for an \<^verbatim>\<open>os.Error\<close> result.
\<close>

datatype go_error = Panic string | OsError string

type_synonym 'a go = "go_error + 'a"

text \<open>Sequencing: the first failure ends the function.\<close>

definition go_bind :: "'a go \<Rightarrow> ('a \<Rightarrow> 'b go) \<Rightarrow> 'b go" where
  "go_bind m f = (case m of Inl e \<Rightarrow> Inl e | Inr x \<Rightarrow> f x)"

lemma go_bind_simps [simp]:
  "go_bind (Inl e) f = Inl e" "go_bind (Inr x) f = f x"
  by (simp_all add: go_bind_def)

lemma go_bind_cong [fundef_cong]:
  "m = m' \<Longrightarrow> (\<And>x. m' = Inr x \<Longrightarrow> f x = f' x) \<Longrightarrow> go_bind m f = go_bind m' f'"
  by (cases m') simp_all

lemma go_bind_Inr: "go_bind m f = Inr y \<longleftrightarrow> (\<exists>x. m = Inr x \<and> f x = Inr y)"
  by (cases m) auto

lemma go_bind_assoc: "go_bind (go_bind m f) g = go_bind m (\<lambda>x. go_bind (f x) g)"
  by (cases m) simp_all

text \<open>The assignment \<^verbatim>\<open>a[i] = x\<close>, with the run-time check of the index.\<close>

definition put :: "'a list \<Rightarrow> nat \<Rightarrow> 'a \<Rightarrow> 'a list go" where
  "put a i x = (if i < length a then Inr (a[i := x]) else Inl (Panic ''index out of range''))"

lemma put_simps [simp]:
  "i < length a \<Longrightarrow> put a i x = Inr (a[i := x])"
  "\<not> i < length a \<Longrightarrow> put a i x = Inl (Panic ''index out of range'')"
  by (simp_all add: put_def)

text \<open>The bytes of a string constant.\<close>

definition bytes_of :: "string \<Rightarrow> byte list" where
  "bytes_of s = map of_char s"

subsection \<open>Copying into an array\<close>

text \<open>The loop \<^verbatim>\<open>for i, b := range src { dst[k+i] = b }\<close>.\<close>

fun copy_at :: "'a list \<Rightarrow> nat \<Rightarrow> 'a list \<Rightarrow> 'a list" where
  "copy_at dst k [] = dst"
| "copy_at dst k (b # src) = copy_at (dst[k := b]) (Suc k) src"

lemma length_copy_at [simp, go_bytes]: "length (copy_at dst k src) = length dst"
  by (induction dst k src rule: copy_at.induct) simp_all

lemma copy_at_eq:
  "k + length src \<le> length dst \<Longrightarrow>
   copy_at dst k src = take k dst @ src @ drop (k + length src) dst"
proof (induction dst k src rule: copy_at.induct)
  case (2 dst k b src)
  have k: "k < length dst" using 2 by simp
  have "take (Suc k) (dst[k := b]) = take k dst @ [b]"
    using k by (simp add: take_Suc_conv_app_nth)
  moreover have "drop (Suc (k + length src)) (dst[k := b]) = drop (Suc (k + length src)) dst"
    by simp
  ultimately show ?case using 2 by simp
qed simp

lemma copy_at_append: "copy_at dst k (xs @ ys) = copy_at (copy_at dst k xs) (k + length xs) ys"
  by (induction dst k xs rule: copy_at.induct) simp_all

lemma take_copy_at [go_bytes]:
  "k + length src \<le> length dst \<Longrightarrow>
   take (k + length src) (copy_at dst k src) = take k dst @ src"
  by (simp add: copy_at_eq)

lemma copy_at_all [go_bytes]:
  "k \<le> length dst \<Longrightarrow> length src = length dst - k \<Longrightarrow> copy_at dst k src = take k dst @ src"
  by (simp add: copy_at_eq)

subsection \<open>Words and their bytes\<close>

text \<open>
  \<^verbatim>\<open>byte(s >> k)\<close> for a word \<open>s\<close>: a shift by the width or more gives 0, in Go as for
  \<^const>\<open>drop_bit\<close>.
\<close>

definition byte_at :: "nat \<Rightarrow> 'w::len word \<Rightarrow> byte" where
  [go_defs]: "byte_at k s = ucast (drop_bit k s)"

definition le_bytes :: "nat \<Rightarrow> 'w::len word \<Rightarrow> byte list" where
  "le_bytes n s = map (\<lambda>i. byte_at (8 * i) s) [0..<n]"

definition be_bytes :: "nat \<Rightarrow> 'w::len word \<Rightarrow> byte list" where
  "be_bytes n s = map (\<lambda>i. byte_at (8 * (n - Suc i)) s) [0..<n]"

lemma length_le_bytes [simp, go_bytes]: "length (le_bytes n s) = n"
  by (simp add: le_bytes_def)

lemma length_be_bytes [simp, go_bytes]: "length (be_bytes n s) = n"
  by (simp add: be_bytes_def)

lemma le_bytes_rev: "le_bytes n s = rev (be_bytes n s)"
  by (rule nth_equalityI) (auto simp: le_bytes_def be_bytes_def rev_nth)

lemma unat_byte_less: "unat (x :: byte) < 256"
  using unsigned_less [of x, where 'a = nat] by simp

lemma unat_ucast_up:
  "LENGTH('a) \<le> LENGTH('b) \<Longrightarrow> unat (ucast (x :: 'a::len word) :: 'b::len word) = unat x"
proof -
  assume le: "LENGTH('a) \<le> LENGTH('b)"
  have "unat x < 2 ^ LENGTH('a)" by (rule unsigned_less)
  also have "\<dots> \<le> 2 ^ LENGTH('b)" using le by simp
  finally show ?thesis by (simp add: unsigned_ucast_eq take_bit_nat_eq_self)
qed

lemma unat_add_no_wrap:
  "unat x + unat y < 2 ^ LENGTH('a) \<Longrightarrow> unat (x + y) = unat x + unat (y :: 'a::len word)"
  by (simp only: unat_add_lem)

text \<open>Two fields packed into one word by \<^verbatim>\<open>hi<<k | lo\<close>.\<close>

lemma nat_pack:
  assumes "lo < 2 ^ k"
  shows "push_bit k hi OR lo = hi * 2 ^ k + (lo :: nat)"
proof -
  have "take_bit k lo = lo" using assms by (simp add: take_bit_nat_eq_self)
  then have "bit lo n \<Longrightarrow> n < k" for n by (metis bit_take_bit_iff)
  then have "push_bit k hi AND lo = 0"
    by (fastforce simp: bit_eq_iff bit_simps not_le [symmetric])
  then show ?thesis
    by (simp add: disjunctive_add_eq_or [symmetric] push_bit_eq_mult)
qed

lemma int_disjoint:
  assumes "0 \<le> lo" and "lo < 2 ^ k"
  shows "push_bit k hi AND lo = (0 :: int)"
proof -
  have "take_bit k lo = lo" using assms by (simp add: take_bit_int_eq_self)
  then have "bit lo n \<Longrightarrow> n < k" for n by (metis bit_take_bit_iff)
  then show ?thesis by (fastforce simp: bit_eq_iff bit_simps not_le [symmetric])
qed

lemma int_pack: "0 \<le> lo \<Longrightarrow> lo < 2 ^ k \<Longrightarrow> push_bit k hi OR lo = hi * 2 ^ k + (lo :: int)"
  using int_disjoint [of lo k hi] by (simp add: disjunctive_add_eq_or [symmetric] push_bit_eq_mult)

lemma digit_div_mod:
  assumes "0 \<le> d" and "d < m"
  shows "(q * m + d) div m = q" and "(q * m + d) mod m = (d :: int)"
  using assms by simp_all

lemma unat_pack:
  assumes "unat lo < 2 ^ k" and "unat hi * 2 ^ k < 2 ^ LENGTH('w)"
  shows "unat (push_bit k hi OR lo) = unat hi * 2 ^ k + unat (lo :: 'w::len word)"
proof -
  have "unat (push_bit k hi) = push_bit k (unat hi)"
    unfolding unsigned_push_bit_eq
    using assms(2) by (intro take_bit_nat_eq_self) (simp add: push_bit_eq_mult)
  then show ?thesis
    using nat_pack [OF assms(1)] by (simp add: unsigned_or_eq)
qed

text \<open>
  The identity on words, with a code equation that turns its argument into a numeral:
  it keeps the evaluation of a recurrence from building up unevaluated bit operations.
\<close>

definition evalw :: "'w::len word \<Rightarrow> 'w word" where
  "evalw w = w"

lemma evalw_code [code]: "evalw w = word_of_int (uint w)"
  by (simp add: evalw_def)

subsection \<open>Whole blocks of a byte sequence\<close>

text \<open>
  The complete blocks of length \<open>n\<close> at the front of \<open>p\<close>; what is left over is
  \<open>drop (whole n (length p)) p\<close>.
\<close>

definition whole :: "nat \<Rightarrow> nat \<Rightarrow> nat" where
  "whole n l = n * (l div n)"

function blocks :: "nat \<Rightarrow> 'a list \<Rightarrow> 'a list list" where
  "blocks n p = (if 0 < n \<and> n \<le> length p then take n p # blocks n (drop n p) else [])"
  by pat_completeness auto
termination
  by (relation "measure (\<lambda>(n, p). length p)") auto

declare blocks.simps [simp del]

lemma whole_le [simp, go_bytes]: "whole n l \<le> l"
  by (simp add: whole_def)

lemma whole_lt [simp, go_bytes]: "l < n \<Longrightarrow> whole n l = 0"
  by (simp add: whole_def)

lemma minus_whole [go_bytes]: "l - whole n l = l mod n"
  by (simp add: whole_def minus_mult_div_eq_mod)

lemma whole_add [go_bytes]:
  assumes "r < n"
  shows "(whole n l + r) mod n = r" and "whole n (whole n l + r) = whole n l"
  using assms by (simp_all add: whole_def)

lemma whole_mod_decomp: "l = whole n l + l mod n"
  by (simp add: whole_def)

lemma mod_Suc_shift: "(l + Suc (z mod n) + c) mod n = (l mod n + Suc z + c) mod (n::nat)"
proof -
  have "(l + Suc (z mod n) + c) mod n = ((l + Suc c) + z mod n) mod n" by (simp add: ac_simps)
  also have "\<dots> = ((l + Suc c) + z) mod n" by (rule mod_add_right_eq)
  also have "\<dots> = (l + (Suc c + z)) mod n" by (simp only: add.assoc)
  also have "\<dots> = (l mod n + (Suc c + z)) mod n" by (simp only: mod_add_left_eq)
  finally show ?thesis by (simp add: ac_simps)
qed

lemma blocks_short [simp]: "length p < n \<Longrightarrow> blocks n p = []"
  by (simp add: blocks.simps)

lemma blocks_step:
  "0 < n \<Longrightarrow> length q = n \<Longrightarrow> blocks n (q @ p) = q # blocks n p"
  by (subst blocks.simps) simp

lemma blocks_append:
  assumes "0 < n" and "n dvd length p"
  shows "blocks n (p @ q) = blocks n p @ blocks n q"
  using assms(2)
proof (induction "length p" arbitrary: p rule: less_induct)
  case less
  show ?case
  proof (cases "p = []")
    case True
    then show ?thesis using assms(1) by simp
  next
    case False
    with less.prems have n: "n \<le> length p" by (simp add: dvd_imp_le)
    define a b where "a = take n p" and "b = drop n p"
    have p: "p = a @ b" and a: "length a = n" using n by (simp_all add: a_def b_def)
    have "length b < length p" using p a assms(1) by simp
    moreover have "n dvd length b" using less.prems p a by simp
    ultimately have "blocks n (b @ q) = blocks n b @ blocks n q" by (rule less.hyps)
    then show ?thesis using p a assms(1) by (simp add: blocks_step)
  qed
qed

lemma blocks_whole:
  assumes "0 < n"
  shows "blocks n (take (whole n (length p)) p) = blocks n p"
proof -
  let ?w = "whole n (length p)"
  have "length (take ?w p) = ?w" by (simp add: whole_def)
  then have "n dvd length (take ?w p)" by (simp add: whole_def)
  then have "blocks n (take ?w p @ drop ?w p) = blocks n (take ?w p) @ blocks n (drop ?w p)"
    by (rule blocks_append [OF assms])
  moreover have "blocks n (drop ?w p) = []"
    using assms by (simp add: minus_whole)
  ultimately show ?thesis by simp
qed

lemma blocks_lengths: "q \<in> set (blocks n p) \<Longrightarrow> length q = n"
proof (induction n p rule: blocks.induct)
  case (1 n p)
  then show ?case by (auto simp: blocks.simps [of n p] split: if_splits)
qed

end
