(* ===== verification/Hash_Iface.thy ===== *)
theory Hash_Iface
  imports Go_Prelude
begin

text \<open>
  The interface \<^verbatim>\<open>hash.Hash\<close> of \<^verbatim>\<open>hash/hash.go\<close>. A value of the interface is a state
  together with its method table, the record \<open>hash_ops\<close>; \<^verbatim>\<open>Write\<close> returns the new state
  and the count (its error is always nil), \<^verbatim>\<open>Sum\<close> may panic. The locale \<open>hash_iface\<close>
  states the contract in the comments of the interface: a state represents the message
  written since the last \<^verbatim>\<open>Reset\<close>, and \<^verbatim>\<open>Sum\<close> returns a fixed function of that message.
  Every hash of the library interprets it, and its clients are proved once, inside it.
\<close>

record 'd hash_ops =
  hash_Write :: "'d \<Rightarrow> byte list \<Rightarrow> 'd \<times> nat"
  hash_Sum :: "'d \<Rightarrow> byte list go"
  hash_Reset :: "'d \<Rightarrow> 'd"
  hash_Size :: "'d \<Rightarrow> nat"

text \<open>A sequence of calls of \<^verbatim>\<open>Write\<close>, one for each element of the list.\<close>

definition hash_Writes :: "'d hash_ops \<Rightarrow> 'd \<Rightarrow> byte list list \<Rightarrow> 'd" where
  "hash_Writes ops = foldl (\<lambda>d p. fst (hash_Write ops d p))"

lemma hash_Writes_simps [simp]:
  "hash_Writes ops d [] = d"
  "hash_Writes ops d (p # ps) = hash_Writes ops (fst (hash_Write ops d p)) ps"
  by (simp_all add: hash_Writes_def)

text \<open>
  What the documentation of \<^verbatim>\<open>hash.Hash\<close> promises, on the method table alone: the sum after
  any sequence of writes, from a new hash or one that was reset, is the hash of the bytes
  written; \<^verbatim>\<open>Write\<close> reports all bytes written; \<^verbatim>\<open>Size\<close> is the length of the sum.
\<close>

definition hash_streams :: "'d hash_ops \<Rightarrow> 'd \<Rightarrow> (byte list \<Rightarrow> byte list) \<Rightarrow> bool" where
  "hash_streams ops New H \<longleftrightarrow>
     (\<forall>ps qs p. let d = hash_Writes ops New ps;
                    d' = hash_Writes ops (hash_Reset ops d) qs
                in hash_Sum ops d = Inr (H (concat ps)) \<and>
                   hash_Sum ops d' = Inr (H (concat qs)) \<and>
                   snd (hash_Write ops d p) = length p \<and>
                   hash_Size ops d = length (H (concat ps)))"

locale hash_iface =
  fixes ops :: "'d hash_ops"
    and New :: 'd
    and rep :: "'d \<Rightarrow> byte list \<Rightarrow> bool"
    and H :: "byte list \<Rightarrow> byte list"
    and size_H :: nat
  assumes rep_New: "rep New []"
    and rep_Write: "rep d m \<Longrightarrow> rep (fst (hash_Write ops d p)) (m @ p)"
    and Write_count: "rep d m \<Longrightarrow> snd (hash_Write ops d p) = length p"
    and Sum_H: "rep d m \<Longrightarrow> hash_Sum ops d = Inr (H m)"
    and rep_Reset: "rep d m \<Longrightarrow> rep (hash_Reset ops d) []"
    and Size_size: "rep d m \<Longrightarrow> hash_Size ops d = size_H"
    and length_H: "length (H m) = size_H"
begin

lemma rep_Writes: "rep d m \<Longrightarrow> rep (hash_Writes ops d ps) (m @ concat ps)"
proof (induction ps arbitrary: d m)
  case (Cons p ps)
  then have "rep (hash_Writes ops (fst (hash_Write ops d p)) ps) ((m @ p) @ concat ps)"
    by (blast intro: rep_Write)
  then show ?case by simp
qed simp

text \<open>Streaming: the sum after any sequence of writes is the hash of their concatenation.\<close>

lemma Sum_Writes: "hash_Sum ops (hash_Writes ops New ps) = Inr (H (concat ps))"
  using rep_Writes [OF rep_New, of ps] by (simp add: Sum_H)

text \<open>How the data is cut into writes does not matter, nor do the writes before a reset.\<close>

lemma Writes_cut:
  "concat ps = concat qs \<Longrightarrow>
   hash_Sum ops (hash_Writes ops New ps) = hash_Sum ops (hash_Writes ops New qs)"
  by (simp add: Sum_Writes)

lemma Sum_after_Reset:
  "hash_Sum ops (hash_Writes ops (hash_Reset ops (hash_Writes ops New qs)) ps) = Inr (H (concat ps))"
proof -
  have "rep (hash_Reset ops (hash_Writes ops New qs)) []"
    by (rule rep_Reset [OF rep_Writes [OF rep_New]])
  from rep_Writes [OF this, of ps] show ?thesis by (simp add: Sum_H)
qed

lemma streams: "hash_streams ops New H"
  unfolding hash_streams_def Let_def
  using Sum_Writes Sum_after_Reset Write_count [OF rep_Writes [OF rep_New]]
    Size_size [OF rep_Writes [OF rep_New]] length_H by simp

end

end
