(* ===== verification/Digest.thy ===== *)
theory Digest
  imports Hash_Iface
begin

text \<open>
  The buffering shared by the block digests: the packages \<^verbatim>\<open>md4\<close>, \<^verbatim>\<open>md5\<close>, \<^verbatim>\<open>sha1\<close>,
  \<^verbatim>\<open>sha256\<close>, \<^verbatim>\<open>sha512\<close> and \<^verbatim>\<open>ripemd160\<close> each hold the same struct \<^verbatim>\<open>digest\<close> and the same
  text of \<^verbatim>\<open>Write\<close> and \<^verbatim>\<open>Sum\<close>, over their own block size and block function. The text is
  translated once, with those as arguments; the packages' theories instantiate it.

  The locale \<open>block_digest\<close> states what \<^verbatim>\<open>Write\<close> and \<^verbatim>\<open>Sum\<close> rely on (the block function
  absorbs the whole blocks of its argument and returns their length), and proves that the
  buffering refines the reference hash \<open>md_state\<close>: the compression function folded over
  the blocks of the padded message.
\<close>

subsection \<open>The struct and its operations\<close>

record 'w digest =
  digest_s :: "'w list"
  digest_x :: "byte list"
  digest_nx :: nat
  digest_len :: uint64

text \<open>The loop \<^verbatim>\<open>for len(p) >= _Chunk { ... p = p[_Chunk:]; n += _Chunk }\<close>.\<close>

function block_loop ::
  "nat \<Rightarrow> ('w list \<Rightarrow> byte list \<Rightarrow> 'w list) \<Rightarrow> 'w list \<Rightarrow> byte list \<Rightarrow> nat \<Rightarrow> 'w list \<times> nat" where
  "block_loop chunk compress s p n =
     (if 0 < chunk \<and> chunk \<le> length p
      then block_loop chunk compress (compress s (take chunk p)) (drop chunk p) (n + chunk)
      else (s, n))"
  by pat_completeness auto
termination
  by (relation "measure (\<lambda>(chunk, compress, s, p, n). length p)") auto

declare block_loop.simps [simp del]

text \<open>
  \<^verbatim>\<open>Write\<close> in its two halves: the bytes that complete a partly filled buffer
  (\<^verbatim>\<open>if d.nx > 0 { ... }\<close>), then the whole blocks and what is left over.
\<close>

definition digest_fill ::
  "nat \<Rightarrow> ('w list \<Rightarrow> byte list \<Rightarrow> 'w list \<times> nat) \<Rightarrow> ('w, 'z) digest_scheme \<Rightarrow> byte list
    \<Rightarrow> ('w, 'z) digest_scheme \<times> byte list" where
  "digest_fill chunk Block d p =
     (if digest_nx d > 0 then
        let n = length p;
            n = (if n > chunk - digest_nx d then chunk - digest_nx d else n);
            d = d\<lparr>digest_x := copy_at (digest_x d) (digest_nx d) (take n p)\<rparr>;
            d = d\<lparr>digest_nx := digest_nx d + n\<rparr>;
            d = (if digest_nx d = chunk
                 then d\<lparr>digest_s := fst (Block (digest_s d) (digest_x d)), digest_nx := 0\<rparr>
                 else d)
        in (d, drop n p)
      else (d, p))"

definition digest_absorb ::
  "('w list \<Rightarrow> byte list \<Rightarrow> 'w list \<times> nat) \<Rightarrow> ('w, 'z) digest_scheme \<Rightarrow> byte list
    \<Rightarrow> ('w, 'z) digest_scheme" where
  "digest_absorb Block d p =
     (let (s, n) = Block (digest_s d) p;
          d = d\<lparr>digest_s := s\<rparr>;
          p = drop n p
      in if length p > 0
         then d\<lparr>digest_x := copy_at (digest_x d) 0 p, digest_nx := length p\<rparr>
         else d)"

definition digest_Write ::
  "nat \<Rightarrow> ('w list \<Rightarrow> byte list \<Rightarrow> 'w list \<times> nat) \<Rightarrow> ('w, 'z) digest_scheme \<Rightarrow> byte list
    \<Rightarrow> ('w, 'z) digest_scheme \<times> nat" where
  "digest_Write chunk Block d p =
     (let nn = length p;
          d = d\<lparr>digest_len := digest_len d + of_nat nn\<rparr>;
          (d, p) = digest_fill chunk Block d p;
          d = digest_absorb Block d p
      in (d, nn))"

text \<open>
  The part of \<^verbatim>\<open>Sum\<close> up to the check of \<^verbatim>\<open>d.nx\<close>: \<open>thresh\<close> is 56 (112 in
  \<^verbatim>\<open>sha512\<close>) and \<open>lenbytes\<close> the loop that stores the bit count. The array \<open>tmp\<close> has the
  length of a block, and the slices taken of it are within it.
\<close>

definition digest_Final ::
  "nat \<Rightarrow> nat \<Rightarrow> (uint64 \<Rightarrow> byte list) \<Rightarrow> ('w list \<Rightarrow> byte list \<Rightarrow> 'w list \<times> nat)
    \<Rightarrow> ('w, 'z) digest_scheme \<Rightarrow> ('w, 'z) digest_scheme go" where
  "digest_Final chunk thresh lenbytes Block d0 =
     (let d = d0;
          len = digest_len d;
          tmp = (replicate chunk 0)[0 := 0x80];
          r = unat (len mod of_nat chunk);
          d = (if r < thresh
               then fst (digest_Write chunk Block d (take (thresh - r) tmp))
               else fst (digest_Write chunk Block d (take (chunk + thresh - r) tmp)));
          len = push_bit 3 len;
          tmp = copy_at tmp 0 (lenbytes len);
          d = fst (digest_Write chunk Block d (take (chunk - thresh) tmp))
      in if digest_nx d \<noteq> 0 then Inl (Panic ''d.nx != 0'') else Inr d)"

subsection \<open>The reference hash\<close>

text \<open>
  The padding of RFC 1321 and FIPS 180: a 1 bit, 0 bits up to \<open>thresh\<close> bytes modulo the
  block size, the length in bits.
\<close>

definition md_pad :: "nat \<Rightarrow> nat \<Rightarrow> (uint64 \<Rightarrow> byte list) \<Rightarrow> byte list \<Rightarrow> byte list" where
  "md_pad chunk thresh lenbytes m =
     m @ 0x80 # replicate ((chunk + thresh - Suc (length m mod chunk)) mod chunk) 0
       @ lenbytes (of_nat (8 * length m))"

definition md_state ::
  "nat \<Rightarrow> nat \<Rightarrow> (uint64 \<Rightarrow> byte list) \<Rightarrow> ('w list \<Rightarrow> byte list \<Rightarrow> 'w list) \<Rightarrow> 'w list
    \<Rightarrow> byte list \<Rightarrow> 'w list" where
  "md_state chunk thresh lenbytes compress init m =
     foldl compress init (blocks chunk (md_pad chunk thresh lenbytes m))"

text \<open>What a digest's fields hold when the message \<open>m\<close> has been written to it.\<close>

definition digest_buf ::
  "nat \<Rightarrow> ('w list \<Rightarrow> byte list \<Rightarrow> 'w list) \<Rightarrow> 'w list \<Rightarrow> ('w, 'z) digest_scheme \<Rightarrow> byte list \<Rightarrow> bool" where
  "digest_buf chunk compress init d m \<longleftrightarrow>
     digest_s d = foldl compress init (blocks chunk m) \<and>
     length (digest_x d) = chunk \<and>
     digest_nx d = length m mod chunk \<and>
     take (digest_nx d) (digest_x d) = drop (whole chunk (length m)) m"

definition digest_rep ::
  "nat \<Rightarrow> ('w list \<Rightarrow> byte list \<Rightarrow> 'w list) \<Rightarrow> 'w list \<Rightarrow> ('w, 'z) digest_scheme \<Rightarrow> byte list \<Rightarrow> bool" where
  "digest_rep chunk compress init d m \<longleftrightarrow>
     digest_buf chunk compress init d m \<and> digest_len d = of_nat (length m)"

lemma block_loop_eq:
  "0 < chunk \<Longrightarrow>
   block_loop chunk f s p n = (foldl f s (blocks chunk p), n + whole chunk (length p))"
proof (induction chunk f s p n rule: block_loop.induct)
  case (1 chunk f s p n)
  show ?case
  proof (cases "chunk \<le> length p")
    case True
    have "whole chunk (length p) = chunk + whole chunk (length p - chunk)"
      using True "1.prems" by (simp add: whole_def le_div_geq algebra_simps)
    with True 1 show ?thesis
      by (simp add: block_loop.simps [of chunk f s p n] blocks.simps [of chunk p])
  next
    case False
    then show ?thesis by (simp add: block_loop.simps [of chunk f s p n])
  qed
qed

lemma length_md_state:
  assumes "length init = n" and "\<And>s p. length (compress s p) = n"
  shows "length (md_state chunk thresh lenbytes compress init m) = n"
proof -
  have "length (foldl compress s bs) = n" if "length s = n" for s bs
    using that by (induction bs arbitrary: s) (simp_all add: assms(2))
  then show ?thesis by (simp add: md_state_def assms(1))
qed

lemma length_concat_const: "(\<And>x. length (f x) = k) \<Longrightarrow> length (concat (map f xs)) = k * length xs"
  by (induction xs) simp_all

subsection \<open>Message schedules\<close>

text \<open>
  The SHA packages fill an array by a recurrence, \<^verbatim>\<open>for i := 16; i < n; i++ { w[i] = ... }\<close>.
  The same words, computed with the newest first: the form in which a schedule is evaluated.
\<close>

fun sched :: "nat \<Rightarrow> ('w list \<Rightarrow> 'w) \<Rightarrow> 'w list \<Rightarrow> 'w list" where
  "sched 0 g ws = ws"
| "sched (Suc k) g ws = sched k g (g ws # ws)"

lemma length_sched [simp]: "length (sched k g ws) = k + length ws"
  by (induction k g ws rule: sched.induct) simp_all

lemma fold_sched:
  assumes "\<And>xs zs. 16 \<le> length xs \<Longrightarrow> F (length xs) (xs @ zs) = g (rev xs)"
    and "length xs = n" and "16 \<le> n" and "m = n + k"
  shows "fold (\<lambda>i w. w[i := F i w]) [n..<m] (xs @ replicate k z) = rev (sched k g (rev xs))"
  using assms(2-)
proof (induction k arbitrary: xs n)
  case (Suc k)
  have "(xs @ replicate (Suc k) z)[n := F n (xs @ replicate (Suc k) z)] =
      (xs @ [g (rev xs)]) @ replicate k z"
    using Suc.prems assms(1) [of xs "replicate (Suc k) z"] by (simp add: list_update_append)
  then show ?case
    using Suc.IH [of "xs @ [g (rev xs)]" "Suc n"] Suc.prems by (simp add: upt_conv_Cons del: upt_Suc)
qed simp

text \<open>A loop that indexes two arrays in step walks through the pairs.\<close>

lemma fold_index_zip:
  assumes "length xs = n" and "length ys = n"
  shows "fold (\<lambda>i. f (xs ! i) (ys ! i)) [0..<n] = fold (\<lambda>(x, y). f x y) (zip xs ys)"
proof -
  have "zip xs ys = map (\<lambda>i. (xs ! i, ys ! i)) [0..<n]"
    using assms by (intro nth_equalityI) simp_all
  then show ?thesis by (simp add: fold_map comp_def)
qed

subsection \<open>The block functions' contract and what it gives\<close>

locale block_digest =
  fixes chunk thresh :: nat
    and lenbytes :: "uint64 \<Rightarrow> byte list"
    and compress :: "'w list \<Rightarrow> byte list \<Rightarrow> 'w list"
    and Block :: "'w list \<Rightarrow> byte list \<Rightarrow> 'w list \<times> nat"
    and init :: "'w list"
  assumes thresh_less: "thresh < chunk"
    and chunk_dvd: "chunk dvd 2 ^ 64" and chunk_less: "chunk < 2 ^ 64"
    and length_lenbytes: "length (lenbytes l) = chunk - thresh"
    and Block_eq: "Block s p = (foldl compress s (blocks chunk p), whole chunk (length p))"
begin

lemma chunk_pos: "0 < chunk"
  using thresh_less by simp

lemma absorb_buf:
  assumes "digest_buf chunk compress init d m" and "digest_nx d = 0 \<or> p = []"
  shows "digest_buf chunk compress init (digest_absorb Block d p) (m @ p)"
proof (cases "p = []")
  case True
  then show ?thesis
    using assms(1) chunk_pos by (simp add: digest_absorb_def Block_eq whole_def)
next
  case False
  then have nx: "digest_nx d = 0" using assms(2) by simp
  then have dvd: "chunk dvd length m" using assms(1) by (auto simp: digest_buf_def)
  then obtain k where k: "length m = chunk * k" by (elim dvdE)
  have w: "whole chunk (length m + length p) = length m + whole chunk (length p)"
    using k chunk_pos by (simp add: whole_def algebra_simps)
  have md: "(length m + length p) mod chunk = length p mod chunk"
    using k by simp
  have bl: "blocks chunk (m @ p) = blocks chunk m @ blocks chunk p"
    by (rule blocks_append [OF chunk_pos dvd])
  let ?r = "drop (whole chunk (length p)) p"
  have lr: "length ?r = length p mod chunk" by (simp add: minus_whole)
  then have "length ?r \<le> chunk" using chunk_pos by (simp add: less_imp_le)
  then have tk: "length (digest_x d) = chunk \<Longrightarrow> take (length ?r) (copy_at (digest_x d) 0 ?r) = ?r"
    using take_copy_at [of 0 ?r "digest_x d"] by simp
  have "length p mod chunk = 0 \<longleftrightarrow> ?r = []"
    using lr by (metis length_0_conv)
  then show ?thesis
    using assms(1) nx lr tk by (auto simp: digest_buf_def digest_absorb_def Block_eq bl w md Let_def)
qed

text \<open>The buffer is completed, and absorbed as one block.\<close>

lemma buf_complete:
  assumes buf: "digest_buf chunk compress init d m"
    and a: "digest_nx d + length a = chunk"
  shows "digest_buf chunk compress init
     (d\<lparr>digest_x := copy_at (digest_x d) (digest_nx d) a,
        digest_s := fst (Block (digest_s d) (copy_at (digest_x d) (digest_nx d) a)),
        digest_nx := 0\<rparr>) (m @ a)"
proof -
  let ?w = "whole chunk (length m)"
  let ?b = "drop ?w m @ a"
  have x: "length (digest_x d) = chunk"
    and rem: "take (digest_nx d) (digest_x d) = drop ?w m"
    and s: "digest_s d = foldl compress init (blocks chunk m)"
    using buf unfolding digest_buf_def by blast+
  have cb: "copy_at (digest_x d) (digest_nx d) a = ?b"
    using a x rem by (simp add: copy_at_eq)
  then have lb: "length ?b = chunk" using x by (metis length_copy_at)
  have ma: "m @ a = take ?w m @ ?b" by simp
  have lw: "length (take ?w m) = ?w" by (simp add: min_absorb2)
  have dvd: "chunk dvd length (take ?w m)" unfolding lw by (simp add: whole_def)
  have b1: "blocks chunk ?b = [?b]"
    using blocks_step [OF chunk_pos lb, of "[]"] chunk_pos by simp
  have bl: "blocks chunk (m @ a) = blocks chunk m @ [?b]"
    unfolding ma blocks_append [OF chunk_pos dvd] b1 by (simp add: blocks_whole chunk_pos)
  have "length (m @ a) = chunk * Suc (length m div chunk)"
    unfolding ma length_append [of "take ?w m"] lw lb by (simp add: whole_def)
  then have "length (m @ a) mod chunk = 0" "whole chunk (length (m @ a)) = length (m @ a)"
    using chunk_pos by (simp_all add: whole_def)
  then show ?thesis
    using s cb lb bl b1 by (simp add: digest_buf_def Block_eq)
qed

text \<open>The buffer is extended but not completed.\<close>

lemma buf_extend:
  assumes buf: "digest_buf chunk compress init d m"
    and p: "digest_nx d + length p < chunk"
  shows "digest_buf chunk compress init
     (d\<lparr>digest_x := copy_at (digest_x d) (digest_nx d) p, digest_nx := digest_nx d + length p\<rparr>) (m @ p)"
proof -
  let ?w = "whole chunk (length m)"
  have x: "length (digest_x d) = chunk" and k: "digest_nx d = length m mod chunk"
    and rem: "take (digest_nx d) (digest_x d) = drop ?w m"
    and s: "digest_s d = foldl compress init (blocks chunk m)"
    using buf unfolding digest_buf_def by blast+
  have l: "length (m @ p) = ?w + (digest_nx d + length p)"
    using whole_mod_decomp [of "length m" chunk] k by simp
  have md: "length (m @ p) mod chunk = digest_nx d + length p"
    and wh: "whole chunk (length (m @ p)) = ?w"
    unfolding l using p by (simp_all add: whole_add)
  have "blocks chunk (m @ p) = blocks chunk m"
    using blocks_whole [OF chunk_pos, of "m @ p"] blocks_whole [OF chunk_pos, of m]
    unfolding wh by simp
  moreover have "take (digest_nx d + length p) (copy_at (digest_x d) (digest_nx d) p) = drop ?w m @ p"
    using p x rem by (simp add: take_copy_at)
  ultimately show ?thesis
    using s x md wh by (simp add: digest_buf_def)
qed

lemma fill_buf:
  assumes buf: "digest_buf chunk compress init d m"
    and fill: "digest_fill chunk Block d p = (d', q)"
  shows "\<exists>a. p = a @ q \<and> digest_buf chunk compress init d' (m @ a) \<and> (digest_nx d' = 0 \<or> q = [])"
proof (cases "digest_nx d = 0")
  case True
  then show ?thesis using assms by (intro exI [of _ "[]"]) (auto simp: digest_fill_def)
next
  case False
  let ?k = "digest_nx d"
  have k: "?k < chunk" using buf chunk_pos by (simp add: digest_buf_def)
  show ?thesis
  proof (cases "?k + length p < chunk")
    case True
    with False fill have "q = []"
      and "d' = d\<lparr>digest_x := copy_at (digest_x d) ?k p, digest_nx := ?k + length p\<rparr>"
      by (auto simp: digest_fill_def Let_def)
    then show ?thesis using buf_extend [OF buf True] by (intro exI [of _ p]) simp
  next
    case False': False
    let ?a = "take (chunk - ?k) p"
    have len: "(if length p > chunk - ?k then chunk - ?k else length p) = chunk - ?k"
      using False' by auto
    have q: "q = drop (chunk - ?k) p"
      and d': "d' = d\<lparr>digest_x := copy_at (digest_x d) ?k ?a,
                  digest_s := fst (Block (digest_s d) (copy_at (digest_x d) ?k ?a)), digest_nx := 0\<rparr>"
      using fill False k unfolding digest_fill_def len Let_def by auto
    have "?k + length ?a = chunk" using k False' by simp
    from buf_complete [OF buf this] show ?thesis
      unfolding d' q by (intro exI [of _ ?a]) simp
  qed
qed

lemma fill_frame:
  assumes "digest_fill chunk Block d p = (d', q)"
  shows "digest_len d' = digest_len d" and "digest.more d' = digest.more d"
  using assms by (auto simp: digest_fill_def Let_def split: if_splits)

lemma absorb_frame:
  "digest_len (digest_absorb Block d p) = digest_len d"
  "digest.more (digest_absorb Block d p) = digest.more d"
  by (simp_all add: digest_absorb_def Let_def split: prod.splits)

lemma Write_rep:
  assumes "digest_rep chunk compress init d m"
  shows "digest_rep chunk compress init (fst (digest_Write chunk Block d p)) (m @ p)"
proof -
  let ?d = "d\<lparr>digest_len := digest_len d + of_nat (length p)\<rparr>"
  obtain d' q where f: "digest_fill chunk Block ?d p = (d', q)" by fastforce
  have "digest_buf chunk compress init ?d m"
    using assms by (auto simp: digest_rep_def digest_buf_def)
  from fill_buf [OF this f] obtain a
    where a: "p = a @ q" "digest_buf chunk compress init d' (m @ a)" "digest_nx d' = 0 \<or> q = []"
    by blast
  from absorb_buf [OF a(2,3)] a(1)
  have "digest_buf chunk compress init (digest_absorb Block d' q) (m @ p)" by simp
  moreover have "digest_len (digest_absorb Block d' q) = of_nat (length (m @ p))"
    using assms by (simp add: absorb_frame fill_frame(1) [OF f] digest_rep_def)
  ultimately show ?thesis by (simp add: digest_Write_def f digest_rep_def)
qed

lemma Write_more: "digest.more (fst (digest_Write chunk Block d p)) = digest.more d"
  by (simp add: digest_Write_def Let_def absorb_frame fill_frame(2) split: prod.splits)

lemma Write_nn: "snd (digest_Write chunk Block d p) = length p"
  by (simp add: digest_Write_def Let_def split: prod.splits)

lemma unat_len_mod: "unat ((of_nat k :: uint64) mod of_nat chunk) = k mod chunk"
  using chunk_less chunk_dvd by (simp add: unat_mod unat_of_nat mod_mod_cancel)

lemma push_bit_len: "push_bit 3 (of_nat k :: uint64) = of_nat (8 * k)"
  by (simp add: push_bit_eq_mult mult.commute)

lemma first_padding:
  assumes "r < chunk" and "n = (if r < thresh then thresh - r else chunk + thresh - r)"
  shows "take n ((replicate chunk 0)[0 := 0x80 :: byte]) =
    0x80 # replicate ((chunk + thresh - Suc r) mod chunk) 0"
proof -
  have n: "n = Suc ((chunk + thresh - Suc r) mod chunk)"
  proof (cases "r < thresh")
    case True
    then have "chunk + thresh - Suc r = chunk + (thresh - Suc r)" by simp
    moreover have "thresh - Suc r < chunk" using thresh_less by simp
    ultimately have "(chunk + thresh - Suc r) mod chunk = thresh - Suc r"
      by (simp only: mod_add_self1 mod_less)
    then show ?thesis using True assms by simp
  next
    case False
    then have "(chunk + thresh - Suc r) mod chunk = chunk + thresh - Suc r"
      using assms thresh_less by (intro mod_less) simp
    then show ?thesis using False assms by simp
  qed
  obtain c where c: "chunk = Suc c" using chunk_pos by (cases chunk) auto
  have "(chunk + thresh - Suc r) mod chunk \<le> c"
    using mod_less_divisor [OF chunk_pos, of "chunk + thresh - Suc r"] c by simp
  then show ?thesis by (simp add: n c min_absorb1)
qed

lemma length_md_pad: "length (md_pad chunk thresh lenbytes m) mod chunk = 0"
proof -
  let ?r = "length m mod chunk"
  have r: "?r < chunk" using chunk_pos by simp
  have "length (md_pad chunk thresh lenbytes m) mod chunk =
      (length m + Suc ((chunk + thresh - Suc ?r) mod chunk) + (chunk - thresh)) mod chunk"
    by (simp add: md_pad_def length_lenbytes add.assoc)
  also have "\<dots> = (?r + Suc (chunk + thresh - Suc ?r) + (chunk - thresh)) mod chunk"
    by (rule mod_Suc_shift)
  also have "?r + Suc (chunk + thresh - Suc ?r) + (chunk - thresh) = chunk + chunk"
    using r thresh_less by linarith
  finally show ?thesis by simp
qed

lemma Final_rep:
  assumes rep: "digest_rep chunk compress init d m"
  shows "\<exists>d'. digest_Final chunk thresh lenbytes Block d = Inr d' \<and>
     digest_s d' = md_state chunk thresh lenbytes compress init m \<and>
     digest.more d' = digest.more d"
proof -
  let ?r = "length m mod chunk" and ?tmp = "(replicate chunk 0)[0 := 0x80 :: byte]"
  let ?z = "0x80 # replicate ((chunk + thresh - Suc ?r) mod chunk) 0"
  have r: "unat (digest_len d mod of_nat chunk) = ?r"
    using rep by (simp add: digest_rep_def unat_len_mod)
  have z: "(if ?r < thresh then fst (digest_Write chunk Block d (take (thresh - ?r) ?tmp))
       else fst (digest_Write chunk Block d (take (chunk + thresh - ?r) ?tmp))) =
      fst (digest_Write chunk Block d ?z)"
    using first_padding [of ?r, OF _ refl] chunk_pos by (cases "?r < thresh") (simp_all only: if_True if_False mod_less_divisor)
  let ?d1 = "fst (digest_Write chunk Block d ?z)"
  let ?l = "lenbytes (of_nat (8 * length m))"
  have l: "take (chunk - thresh) (copy_at ?tmp 0 (lenbytes (push_bit 3 (digest_len d)))) = ?l"
    using rep take_copy_at [of 0 ?l ?tmp]
    by (simp add: digest_rep_def push_bit_len length_lenbytes del: of_nat_mult)
  let ?d2 = "fst (digest_Write chunk Block ?d1 ?l)"
  have "digest_rep chunk compress init ?d2 ((m @ ?z) @ ?l)"
    by (rule Write_rep [OF Write_rep [OF rep]])
  then have d2: "digest_rep chunk compress init ?d2 (md_pad chunk thresh lenbytes m)"
    by (simp add: md_pad_def)
  then have "digest_nx ?d2 = 0" and "digest_s ?d2 = md_state chunk thresh lenbytes compress init m"
    using length_md_pad by (simp_all add: digest_rep_def digest_buf_def md_state_def)
  moreover have "digest_Final chunk thresh lenbytes Block d =
      (if digest_nx ?d2 \<noteq> 0 then Inl (Panic ''d.nx != 0'') else Inr ?d2)"
    by (simp only: digest_Final_def Let_def r z l)
  ultimately show ?thesis by (auto simp: Write_more)
qed

end

text \<open>
  A package built on the buffering: its method table runs \<^const>\<open>digest_Write\<close> and
  \<^const>\<open>digest_Final\<close>, its \<^verbatim>\<open>Reset\<close> stores the initial chaining value, and the bytes
  it returns depend on the chaining value and on the fields it adds to the struct (\<open>tag\<close>),
  which no operation changes. Such a package satisfies the contract of \<^verbatim>\<open>hash.Hash\<close>.
\<close>

locale packaged_digest = block_digest chunk thresh lenbytes compress Block init
  for chunk thresh :: nat
    and lenbytes :: "uint64 \<Rightarrow> byte list"
    and compress :: "'w list \<Rightarrow> byte list \<Rightarrow> 'w list"
    and Block :: "'w list \<Rightarrow> byte list \<Rightarrow> 'w list \<times> nat"
    and init :: "'w list" +
  fixes ops :: "('w, 'z) digest_scheme hash_ops"
    and New :: "('w, 'z) digest_scheme"
    and tag :: 'z
    and out :: "'w list \<Rightarrow> byte list"
    and size_H :: nat
  assumes ops_Write: "hash_Write ops = digest_Write chunk Block"
    and ops_Sum: "digest_Final chunk thresh lenbytes Block d = Inr d' \<Longrightarrow> digest.more d' = tag \<Longrightarrow>
      hash_Sum ops d = Inr (out (digest_s d'))"
    and ops_Reset: "digest.more d = tag \<Longrightarrow>
      hash_Reset ops d = d\<lparr>digest_s := init, digest_nx := 0, digest_len := 0\<rparr>"
    and ops_Size: "digest.more d = tag \<Longrightarrow> hash_Size ops d = size_H"
    and New_Reset: "\<exists>d. New = d\<lparr>digest_s := init, digest_nx := 0, digest_len := 0\<rparr> \<and>
      length (digest_x d) = chunk \<and> digest.more d = tag"
    and length_out: "length (out (md_state chunk thresh lenbytes compress init m)) = size_H"

sublocale packaged_digest \<subseteq> iface: hash_iface ops New
  "\<lambda>d m. digest_rep chunk compress init d m \<and> digest.more d = tag"
  "\<lambda>m. out (md_state chunk thresh lenbytes compress init m)" size_H
proof
  have reset: "digest_rep chunk compress init (d\<lparr>digest_s := init, digest_nx := 0, digest_len := 0\<rparr>) []"
    if "length (digest_x d) = chunk" for d :: "('w, 'z) digest_scheme"
    using that chunk_pos by (simp add: digest_rep_def digest_buf_def)
  show "digest_rep chunk compress init New [] \<and> digest.more New = tag"
    using New_Reset reset by auto
  fix d m p
  assume rep: "digest_rep chunk compress init d m \<and> digest.more d = tag"
  then show "digest_rep chunk compress init (fst (hash_Write ops d p)) (m @ p) \<and>
      digest.more (fst (hash_Write ops d p)) = tag"
    by (simp add: ops_Write Write_rep Write_more)
  show "snd (hash_Write ops d p) = length p"
    by (simp add: ops_Write Write_nn)
  show "hash_Sum ops d = Inr (out (md_state chunk thresh lenbytes compress init m))"
    using rep Final_rep [of d m] ops_Sum [of d] by auto
  show "digest_rep chunk compress init (hash_Reset ops d) [] \<and> digest.more (hash_Reset ops d) = tag"
    using rep reset [of d] by (simp add: ops_Reset digest_rep_def digest_buf_def)
  show "hash_Size ops d = size_H" using rep by (simp add: ops_Size)
next
  fix m
  show "length (out (md_state chunk thresh lenbytes compress init m)) = size_H"
    by (rule length_out)
qed

end
