(* ===== verification/Md4.thy ===== *)
theory Md4
  imports Digest
begin

text \<open>
  Package \<^verbatim>\<open>crypto/md4\<close>: the struct \<^verbatim>\<open>digest\<close> with its methods (\<^verbatim>\<open>md4.go\<close>) and the
  block function (\<^verbatim>\<open>md4block.go\<close>).
\<close>

subsection \<open>The block function\<close>

definition md4_shift1 :: "nat list" where "md4_shift1 = [3, 7, 11, 19]"

definition md4_shift2 :: "nat list" where "md4_shift2 = [3, 5, 9, 13]"

definition md4_shift3 :: "nat list" where "md4_shift3 = [3, 9, 11, 15]"

definition md4_xIndex2 :: "nat list" where
  "md4_xIndex2 = [0, 4, 8, 12, 1, 5, 9, 13, 2, 6, 10, 14, 3, 7, 11, 15]"

definition md4_xIndex3 :: "nat list" where
  "md4_xIndex3 = [0, 8, 4, 12, 2, 10, 6, 14, 1, 9, 5, 13, 3, 11, 7, 15]"

type_synonym md4_regs = "uint32 \<times> uint32 \<times> uint32 \<times> uint32"

fun md4_round1 :: "uint32 list \<Rightarrow> nat \<Rightarrow> md4_regs \<Rightarrow> md4_regs" where
  "md4_round1 X i (a, b, c, d) =
     (let x = i;
          s = md4_shift1 ! (i mod 4);
          f = ((c XOR d) AND b) XOR d;
          a = a + (f + X ! x);
          a = push_bit s a OR drop_bit (32 - s) a
      in (d, a, b, c))"

fun md4_round2 :: "uint32 list \<Rightarrow> nat \<Rightarrow> md4_regs \<Rightarrow> md4_regs" where
  "md4_round2 X i (a, b, c, d) =
     (let x = md4_xIndex2 ! i;
          s = md4_shift2 ! (i mod 4);
          g = (b AND c) OR (b AND d) OR (c AND d);
          a = a + (g + X ! x + 0x5a827999);
          a = push_bit s a OR drop_bit (32 - s) a
      in (d, a, b, c))"

fun md4_round3 :: "uint32 list \<Rightarrow> nat \<Rightarrow> md4_regs \<Rightarrow> md4_regs" where
  "md4_round3 X i (a, b, c, d) =
     (let x = md4_xIndex3 ! i;
          s = md4_shift3 ! (i mod 4);
          h = b XOR c XOR d;
          a = a + (h + X ! x + 0x6ed9eba1);
          a = push_bit s a OR drop_bit (32 - s) a
      in (d, a, b, c))"

text \<open>One pass of the loop \<^verbatim>\<open>for len(p) >= _Chunk\<close>, on the 64 bytes it reads.\<close>

definition md4_X :: "byte list \<Rightarrow> uint32 list" where
  "md4_X p = map (\<lambda>i. let j = 4 * i in
     ucast (p ! j) OR push_bit 8 (ucast (p ! (j + 1))) OR push_bit 16 (ucast (p ! (j + 2)))
       OR push_bit 24 (ucast (p ! (j + 3)))) [0..<16]"

definition md4_compress :: "uint32 list \<Rightarrow> byte list \<Rightarrow> uint32 list" where
  "md4_compress s p =
     (let a = s ! 0; b = s ! 1; c = s ! 2; d = s ! 3;
          (aa, bb, cc, dd) = (a, b, c, d);
          X = md4_X p;
          r = fold (md4_round1 X) [0..<16] (a, b, c, d);
          r = fold (md4_round2 X) [0..<16] r;
          (a, b, c, d) = fold (md4_round3 X) [0..<16] r
      in [a + aa, b + bb, c + cc, d + dd])"

definition md4_Block :: "uint32 list \<Rightarrow> byte list \<Rightarrow> uint32 list \<times> nat" where
  "md4_Block s p = block_loop 64 md4_compress s p 0"

subsection \<open>The methods of digest\<close>

definition md4_init :: "uint32 list" where
  "md4_init = [0x67452301, 0xEFCDAB89, 0x98BADCFE, 0x10325476]"

definition md4_Reset :: "uint32 digest \<Rightarrow> uint32 digest" where
  "md4_Reset d = d\<lparr>digest_s := md4_init, digest_nx := 0, digest_len := 0\<rparr>"

definition md4_New :: "uint32 digest" where
  "md4_New = md4_Reset
     \<lparr>digest_s = replicate 4 0, digest_x = replicate 64 0, digest_nx = 0, digest_len = 0\<rparr>"

definition md4_Size :: "uint32 digest \<Rightarrow> nat" where
  "md4_Size d = 16"

definition md4_Write :: "uint32 digest \<Rightarrow> byte list \<Rightarrow> uint32 digest \<times> nat" where
  "md4_Write d p = digest_Write 64 md4_Block d p"

definition md4_Sum :: "uint32 digest \<Rightarrow> byte list go" where
  "md4_Sum d0 =
     (case digest_Final 64 56 (le_bytes 8) md4_Block d0 of
        Inl e \<Rightarrow> Inl e
      | Inr d \<Rightarrow> Inr (concat (map (le_bytes 4) (digest_s d))))"

definition md4_ops :: "uint32 digest hash_ops" where
  "md4_ops = \<lparr>hash_Write = md4_Write, hash_Sum = md4_Sum, hash_Reset = md4_Reset, hash_Size = md4_Size\<rparr>"

definition md4_hash :: "byte list \<Rightarrow> byte list" where
  "md4_hash m = concat (map (le_bytes 4) (md_state 64 56 (le_bytes 8) md4_compress md4_init m))"

subsection \<open>The package satisfies the contract of hash.Hash\<close>

lemma md4_ops_simps [simp]:
  "hash_Write md4_ops = md4_Write" "hash_Sum md4_ops = md4_Sum"
  "hash_Reset md4_ops = md4_Reset" "hash_Size md4_ops = md4_Size"
  by (simp_all add: md4_ops_def)

lemma length_md4_compress [simp]: "length (md4_compress s p) = 4"
  by (simp add: md4_compress_def Let_def split: prod.splits)

interpretation md4: packaged_digest 64 56 "le_bytes 8" md4_compress md4_Block md4_init
  md4_ops md4_New "()" "\<lambda>s. concat (map (le_bytes 4) s)" 16
proof
  show "\<exists>d. md4_New = d\<lparr>digest_s := md4_init, digest_nx := 0, digest_len := 0\<rparr> \<and>
      length (digest_x d) = 64 \<and> digest.more d = ()"
    by (intro exI [of _ md4_New]) (simp add: md4_New_def md4_Reset_def)
  show "length (concat (map (le_bytes 4) (md_state 64 56 (le_bytes 8) md4_compress md4_init m))) = 16" for m
    by (simp add: length_concat_const length_md_state [where n = 4] md4_init_def)
qed (auto simp: md4_Block_def block_loop_eq md4_Write_def [abs_def] md4_Sum_def md4_Reset_def
       md4_Size_def split: sum.splits)

lemma md4_streams: "hash_streams md4_ops md4_New md4_hash"
  unfolding md4_hash_def [abs_def] by (rule md4.iface.streams)

lemma md4_abc:
  "md4_Sum (fst (md4_Write md4_New [0x61, 0x62, 0x63])) =
     Inr [0xa4, 0x48, 0x01, 0x7a, 0xaf, 0x21, 0xd8, 0x52, 0x5f, 0xc1, 0x0a, 0xe8, 0x7a, 0xa6, 0x72, 0x9d]"
  by code_simp

end
