(* ===== verification/Md5.thy ===== *)
theory Md5
  imports Digest
begin

text \<open>
  Package \<^verbatim>\<open>crypto/md5\<close>: the struct \<^verbatim>\<open>digest\<close> with its methods (\<^verbatim>\<open>md5.go\<close>) and the
  block function (\<^verbatim>\<open>md5block.go\<close>). The operator precedence of the source is written out:
  in Go \<^verbatim>\<open>a<<s | a>>(32-s) + b\<close> is \<open>((a << s) | (a >> (32 - s))) + b\<close>.
\<close>

subsection \<open>The block function\<close>

definition md5_table :: "uint32 list" where
  "md5_table = [
    0xd76aa478, 0xe8c7b756, 0x242070db, 0xc1bdceee, 0xf57c0faf, 0x4787c62a, 0xa8304613, 0xfd469501,
    0x698098d8, 0x8b44f7af, 0xffff5bb1, 0x895cd7be, 0x6b901122, 0xfd987193, 0xa679438e, 0x49b40821,
    0xf61e2562, 0xc040b340, 0x265e5a51, 0xe9b6c7aa, 0xd62f105d, 0x2441453, 0xd8a1e681, 0xe7d3fbc8,
    0x21e1cde6, 0xc33707d6, 0xf4d50d87, 0x455a14ed, 0xa9e3e905, 0xfcefa3f8, 0x676f02d9, 0x8d2a4c8a,
    0xfffa3942, 0x8771f681, 0x6d9d6122, 0xfde5380c, 0xa4beea44, 0x4bdecfa9, 0xf6bb4b60, 0xbebfbc70,
    0x289b7ec6, 0xeaa127fa, 0xd4ef3085, 0x4881d05, 0xd9d4d039, 0xe6db99e5, 0x1fa27cf8, 0xc4ac5665,
    0xf4292244, 0x432aff97, 0xab9423a7, 0xfc93a039, 0x655b59c3, 0x8f0ccc92, 0xffeff47d, 0x85845dd1,
    0x6fa87e4f, 0xfe2ce6e0, 0xa3014314, 0x4e0811a1, 0xf7537e82, 0xbd3af235, 0x2ad7d2bb, 0xeb86d391]"

definition md5_shift1 :: "nat list" where "md5_shift1 = [7, 12, 17, 22]"

definition md5_shift2 :: "nat list" where "md5_shift2 = [5, 9, 14, 20]"

definition md5_shift3 :: "nat list" where "md5_shift3 = [4, 11, 16, 23]"

definition md5_shift4 :: "nat list" where "md5_shift4 = [6, 10, 15, 21]"

type_synonym md5_regs = "uint32 \<times> uint32 \<times> uint32 \<times> uint32"

fun md5_round1 :: "uint32 list \<Rightarrow> nat \<Rightarrow> md5_regs \<Rightarrow> md5_regs" where
  "md5_round1 X i (a, b, c, d) =
     (let x = i;
          s = md5_shift1 ! (i mod 4);
          f = ((c XOR d) AND b) XOR d;
          a = a + (f + X ! x + md5_table ! i);
          a = (push_bit s a OR drop_bit (32 - s) a) + b
      in (d, a, b, c))"

fun md5_round2 :: "uint32 list \<Rightarrow> nat \<Rightarrow> md5_regs \<Rightarrow> md5_regs" where
  "md5_round2 X i (a, b, c, d) =
     (let x = (1 + 5 * i) mod 16;
          s = md5_shift2 ! (i mod 4);
          g = ((b XOR c) AND d) XOR c;
          a = a + (g + X ! x + md5_table ! (i + 16));
          a = (push_bit s a OR drop_bit (32 - s) a) + b
      in (d, a, b, c))"

fun md5_round3 :: "uint32 list \<Rightarrow> nat \<Rightarrow> md5_regs \<Rightarrow> md5_regs" where
  "md5_round3 X i (a, b, c, d) =
     (let x = (5 + 3 * i) mod 16;
          s = md5_shift3 ! (i mod 4);
          h = b XOR c XOR d;
          a = a + (h + X ! x + md5_table ! (i + 32));
          a = (push_bit s a OR drop_bit (32 - s) a) + b
      in (d, a, b, c))"

fun md5_round4 :: "uint32 list \<Rightarrow> nat \<Rightarrow> md5_regs \<Rightarrow> md5_regs" where
  "md5_round4 X i (a, b, c, d) =
     (let x = (7 * i) mod 16;
          s = md5_shift4 ! (i mod 4);
          j = c XOR (b OR NOT d);
          a = a + (j + X ! x + md5_table ! (i + 48));
          a = (push_bit s a OR drop_bit (32 - s) a) + b
      in (d, a, b, c))"

text \<open>One pass of the loop \<^verbatim>\<open>for len(p) >= _Chunk\<close>, on the 64 bytes it reads.\<close>

definition md5_X :: "byte list \<Rightarrow> uint32 list" where
  "md5_X p = map (\<lambda>i. let j = 4 * i in
     ucast (p ! j) OR push_bit 8 (ucast (p ! (j + 1))) OR push_bit 16 (ucast (p ! (j + 2)))
       OR push_bit 24 (ucast (p ! (j + 3)))) [0..<16]"

definition md5_compress :: "uint32 list \<Rightarrow> byte list \<Rightarrow> uint32 list" where
  "md5_compress s p =
     (let a = s ! 0; b = s ! 1; c = s ! 2; d = s ! 3;
          (aa, bb, cc, dd) = (a, b, c, d);
          X = md5_X p;
          r = fold (md5_round1 X) [0..<16] (a, b, c, d);
          r = fold (md5_round2 X) [0..<16] r;
          r = fold (md5_round3 X) [0..<16] r;
          (a, b, c, d) = fold (md5_round4 X) [0..<16] r
      in [a + aa, b + bb, c + cc, d + dd])"

definition md5_Block :: "uint32 list \<Rightarrow> byte list \<Rightarrow> uint32 list \<times> nat" where
  "md5_Block s p = block_loop 64 md5_compress s p 0"

subsection \<open>The methods of digest\<close>

definition md5_init :: "uint32 list" where
  "md5_init = [0x67452301, 0xEFCDAB89, 0x98BADCFE, 0x10325476]"

definition md5_Reset :: "uint32 digest \<Rightarrow> uint32 digest" where
  "md5_Reset d = d\<lparr>digest_s := md5_init, digest_nx := 0, digest_len := 0\<rparr>"

definition md5_New :: "uint32 digest" where
  "md5_New = md5_Reset
     \<lparr>digest_s = replicate 4 0, digest_x = replicate 64 0, digest_nx = 0, digest_len = 0\<rparr>"

definition md5_Size :: "uint32 digest \<Rightarrow> nat" where
  "md5_Size d = 16"

definition md5_Write :: "uint32 digest \<Rightarrow> byte list \<Rightarrow> uint32 digest \<times> nat" where
  "md5_Write d p = digest_Write 64 md5_Block d p"

definition md5_Sum :: "uint32 digest \<Rightarrow> byte list go" where
  "md5_Sum d0 =
     (case digest_Final 64 56 (le_bytes 8) md5_Block d0 of
        Inl e \<Rightarrow> Inl e
      | Inr d \<Rightarrow> Inr (concat (map (le_bytes 4) (digest_s d))))"

definition md5_ops :: "uint32 digest hash_ops" where
  "md5_ops = \<lparr>hash_Write = md5_Write, hash_Sum = md5_Sum, hash_Reset = md5_Reset, hash_Size = md5_Size\<rparr>"

definition md5_hash :: "byte list \<Rightarrow> byte list" where
  "md5_hash m = concat (map (le_bytes 4) (md_state 64 56 (le_bytes 8) md5_compress md5_init m))"

subsection \<open>The package satisfies the contract of hash.Hash\<close>

lemma md5_ops_simps [simp]:
  "hash_Write md5_ops = md5_Write" "hash_Sum md5_ops = md5_Sum"
  "hash_Reset md5_ops = md5_Reset" "hash_Size md5_ops = md5_Size"
  by (simp_all add: md5_ops_def)

lemma length_md5_compress [simp]: "length (md5_compress s p) = 4"
  by (simp add: md5_compress_def Let_def split: prod.splits)

interpretation md5: packaged_digest 64 56 "le_bytes 8" md5_compress md5_Block md5_init
  md5_ops md5_New "()" "\<lambda>s. concat (map (le_bytes 4) s)" 16
proof
  show "\<exists>d. md5_New = d\<lparr>digest_s := md5_init, digest_nx := 0, digest_len := 0\<rparr> \<and>
      length (digest_x d) = 64 \<and> digest.more d = ()"
    by (intro exI [of _ md5_New]) (simp add: md5_New_def md5_Reset_def)
  show "length (concat (map (le_bytes 4) (md_state 64 56 (le_bytes 8) md5_compress md5_init m))) = 16" for m
    by (simp add: length_concat_const length_md_state [where n = 4] md5_init_def)
qed (auto simp: md5_Block_def block_loop_eq md5_Write_def [abs_def] md5_Sum_def md5_Reset_def
       md5_Size_def split: sum.splits)

lemma md5_streams: "hash_streams md5_ops md5_New md5_hash"
  unfolding md5_hash_def [abs_def] by (rule md5.iface.streams)

lemma md5_abc:
  "md5_Sum (fst (md5_Write md5_New [0x61, 0x62, 0x63])) =
     Inr [0x90, 0x01, 0x50, 0x98, 0x3c, 0xd2, 0x4f, 0xb0, 0xd6, 0x96, 0x3f, 0x7d, 0x28, 0xe1, 0x7f, 0x72]"
  by code_simp

end
