(* ===== verification/Sha1.thy ===== *)
theory Sha1
  imports Digest
begin

text \<open>
  Package \<^verbatim>\<open>crypto/sha1\<close>: the struct \<^verbatim>\<open>digest\<close> with its methods (\<^verbatim>\<open>sha1.go\<close>) and the
  block function (\<^verbatim>\<open>sha1block.go\<close>). The four loops over the rounds differ in \<open>f\<close> and
  \<open>K\<close> only, and are one definition with these as arguments.
\<close>

subsection \<open>The block function\<close>

definition sha1_K0 :: uint32 where "sha1_K0 = 0x5A827999"

definition sha1_K1 :: uint32 where "sha1_K1 = 0x6ED9EBA1"

definition sha1_K2 :: uint32 where "sha1_K2 = 0x8F1BBCDC"

definition sha1_K3 :: uint32 where "sha1_K3 = 0xCA62C1D6"

type_synonym sha1_regs = "uint32 \<times> uint32 \<times> uint32 \<times> uint32 \<times> uint32"

definition sha1_w_next :: "nat \<Rightarrow> uint32 list \<Rightarrow> uint32" where
  "sha1_w_next i w =
     (let tmp = w ! (i - 3) XOR w ! (i - 8) XOR w ! (i - 14) XOR w ! (i - 16)
      in push_bit 1 tmp OR drop_bit (32 - 1) tmp)"

definition sha1_w16 :: "byte list \<Rightarrow> uint32 list" where
  "sha1_w16 p = map (\<lambda>i. let j = i * 4 in
     push_bit 24 (ucast (p ! j)) OR push_bit 16 (ucast (p ! (j + 1))) OR push_bit 8 (ucast (p ! (j + 2)))
       OR ucast (p ! (j + 3))) [0..<16]"

definition sha1_w :: "byte list \<Rightarrow> uint32 list" where
  "sha1_w p = fold (\<lambda>i w. w[i := sha1_w_next i w]) [16..<80] (sha1_w16 p @ replicate 64 0)"

fun sha1_round ::
  "(uint32 \<Rightarrow> uint32 \<Rightarrow> uint32 \<Rightarrow> uint32) \<Rightarrow> uint32 \<Rightarrow> uint32 list \<Rightarrow> nat \<Rightarrow> sha1_regs \<Rightarrow> sha1_regs" where
  "sha1_round F K w i (a, b, c, d, e) =
     (let f = F b c d;
          a5 = push_bit 5 a OR drop_bit (32 - 5) a;
          b30 = push_bit 30 b OR drop_bit (32 - 30) b;
          t = a5 + f + e + w ! i + K
      in (t, a, b30, c, d))"

definition sha1_f0 :: "uint32 \<Rightarrow> uint32 \<Rightarrow> uint32 \<Rightarrow> uint32" where
  "sha1_f0 b c d = (b AND c) OR (NOT b AND d)"

definition sha1_f1 :: "uint32 \<Rightarrow> uint32 \<Rightarrow> uint32 \<Rightarrow> uint32" where
  "sha1_f1 b c d = b XOR c XOR d"

definition sha1_f2 :: "uint32 \<Rightarrow> uint32 \<Rightarrow> uint32 \<Rightarrow> uint32" where
  "sha1_f2 b c d = (b AND c) OR (b AND d) OR (c AND d)"

text \<open>One pass of the loop \<^verbatim>\<open>for len(p) >= _Chunk\<close>, on the 64 bytes it reads.\<close>

definition sha1_compress :: "uint32 list \<Rightarrow> byte list \<Rightarrow> uint32 list" where
  "sha1_compress s p =
     (let h0 = s ! 0; h1 = s ! 1; h2 = s ! 2; h3 = s ! 3; h4 = s ! 4;
          w = sha1_w p;
          r = fold (sha1_round sha1_f0 sha1_K0 w) [0..<20] (h0, h1, h2, h3, h4);
          r = fold (sha1_round sha1_f1 sha1_K1 w) [20..<40] r;
          r = fold (sha1_round sha1_f2 sha1_K2 w) [40..<60] r;
          (a, b, c, d, e) = fold (sha1_round sha1_f1 sha1_K3 w) [60..<80] r
      in [h0 + a, h1 + b, h2 + c, h3 + d, h4 + e])"

definition sha1_Block :: "uint32 list \<Rightarrow> byte list \<Rightarrow> uint32 list \<times> nat" where
  "sha1_Block s p = block_loop 64 sha1_compress s p 0"

subsection \<open>The methods of digest\<close>

definition sha1_init :: "uint32 list" where
  "sha1_init = [0x67452301, 0xEFCDAB89, 0x98BADCFE, 0x10325476, 0xC3D2E1F0]"

definition sha1_Reset :: "uint32 digest \<Rightarrow> uint32 digest" where
  "sha1_Reset d = d\<lparr>digest_s := sha1_init, digest_nx := 0, digest_len := 0\<rparr>"

definition sha1_New :: "uint32 digest" where
  "sha1_New = sha1_Reset
     \<lparr>digest_s = replicate 5 0, digest_x = replicate 64 0, digest_nx = 0, digest_len = 0\<rparr>"

definition sha1_Size :: "uint32 digest \<Rightarrow> nat" where
  "sha1_Size d = 20"

definition sha1_Write :: "uint32 digest \<Rightarrow> byte list \<Rightarrow> uint32 digest \<times> nat" where
  "sha1_Write d p = digest_Write 64 sha1_Block d p"

definition sha1_Sum :: "uint32 digest \<Rightarrow> byte list go" where
  "sha1_Sum d0 =
     (case digest_Final 64 56 (be_bytes 8) sha1_Block d0 of
        Inl e \<Rightarrow> Inl e
      | Inr d \<Rightarrow> Inr (concat (map (be_bytes 4) (digest_s d))))"

definition sha1_ops :: "uint32 digest hash_ops" where
  "sha1_ops = \<lparr>hash_Write = sha1_Write, hash_Sum = sha1_Sum, hash_Reset = sha1_Reset, hash_Size = sha1_Size\<rparr>"

definition sha1_hash :: "byte list \<Rightarrow> byte list" where
  "sha1_hash m = concat (map (be_bytes 4) (md_state 64 56 (be_bytes 8) sha1_compress sha1_init m))"

subsection \<open>The package satisfies the contract of hash.Hash\<close>

lemma sha1_ops_simps [simp]:
  "hash_Write sha1_ops = sha1_Write" "hash_Sum sha1_ops = sha1_Sum"
  "hash_Reset sha1_ops = sha1_Reset" "hash_Size sha1_ops = sha1_Size"
  by (simp_all add: sha1_ops_def)

lemma length_sha1_compress [simp]: "length (sha1_compress s p) = 5"
  by (simp add: sha1_compress_def Let_def split: prod.splits)

interpretation sha1: packaged_digest 64 56 "be_bytes 8" sha1_compress sha1_Block sha1_init
  sha1_ops sha1_New "()" "\<lambda>s. concat (map (be_bytes 4) s)" 20
proof
  show "\<exists>d. sha1_New = d\<lparr>digest_s := sha1_init, digest_nx := 0, digest_len := 0\<rparr> \<and>
      length (digest_x d) = 64 \<and> digest.more d = ()"
    by (intro exI [of _ sha1_New]) (simp add: sha1_New_def sha1_Reset_def)
  show "length (concat (map (be_bytes 4) (md_state 64 56 (be_bytes 8) sha1_compress sha1_init m))) = 20" for m
    by (simp add: length_concat_const length_md_state [where n = 5] sha1_init_def)
qed (auto simp: sha1_Block_def block_loop_eq sha1_Write_def [abs_def] sha1_Sum_def sha1_Reset_def
       sha1_Size_def split: sum.splits)

lemma sha1_streams: "hash_streams sha1_ops sha1_New sha1_hash"
  unfolding sha1_hash_def [abs_def] by (rule sha1.iface.streams)

text \<open>The schedule in the form in which it is evaluated.\<close>

lemma sha1_w_code [code]:
  "sha1_w p = rev (sched 64 (\<lambda>ws. let tmp = ws ! 2 XOR ws ! 7 XOR ws ! 13 XOR ws ! 15
     in evalw (push_bit 1 tmp OR drop_bit 31 tmp)) (rev (map evalw (sha1_w16 p))))"
  unfolding sha1_w_def evalw_def list.map_ident
  by (rule fold_sched) (simp_all add: sha1_w16_def sha1_w_next_def nth_append rev_nth Suc_diff_Suc)

lemma sha1_abc:
  "sha1_Sum (fst (sha1_Write sha1_New [0x61, 0x62, 0x63])) =
     Inr [0xa9, 0x99, 0x3e, 0x36, 0x47, 0x06, 0x81, 0x6a, 0xba, 0x3e, 0x25, 0x71, 0x78, 0x50, 0xc2, 0x6c,
       0x9c, 0xd0, 0xd8, 0x9d]"
  by code_simp

end
