(* ===== verification/Sha256.thy ===== *)
theory Sha256
  imports Digest
begin

text \<open>
  Package \<^verbatim>\<open>crypto/sha256\<close>: the struct \<^verbatim>\<open>digest\<close>, which adds the flag \<^verbatim>\<open>is224\<close> to the
  fields of the other digests, with its methods (\<^verbatim>\<open>sha256.go\<close>) and the block function
  (\<^verbatim>\<open>sha256block.go\<close>). The two constructors give two hashes over the same methods, so the
  contract of \<^verbatim>\<open>hash.Hash\<close> is interpreted twice.
\<close>

subsection \<open>The block function\<close>

definition sha256_K :: "uint32 list" where
  "sha256_K = concat [
    [0x428a2f98, 0x71374491, 0xb5c0fbcf, 0xe9b5dba5, 0x3956c25b, 0x59f111f1, 0x923f82a4, 0xab1c5ed5],
    [0xd807aa98, 0x12835b01, 0x243185be, 0x550c7dc3, 0x72be5d74, 0x80deb1fe, 0x9bdc06a7, 0xc19bf174],
    [0xe49b69c1, 0xefbe4786, 0x0fc19dc6, 0x240ca1cc, 0x2de92c6f, 0x4a7484aa, 0x5cb0a9dc, 0x76f988da],
    [0x983e5152, 0xa831c66d, 0xb00327c8, 0xbf597fc7, 0xc6e00bf3, 0xd5a79147, 0x06ca6351, 0x14292967],
    [0x27b70a85, 0x2e1b2138, 0x4d2c6dfc, 0x53380d13, 0x650a7354, 0x766a0abb, 0x81c2c92e, 0x92722c85],
    [0xa2bfe8a1, 0xa81a664b, 0xc24b8b70, 0xc76c51a3, 0xd192e819, 0xd6990624, 0xf40e3585, 0x106aa070],
    [0x19a4c116, 0x1e376c08, 0x2748774c, 0x34b0bcb5, 0x391c0cb3, 0x4ed8aa4a, 0x5b9cca4f, 0x682e6ff3],
    [0x748f82ee, 0x78a5636f, 0x84c87814, 0x8cc70208, 0x90befffa, 0xa4506ceb, 0xbef9a3f7, 0xc67178f2]]"

definition sha256_w_next :: "nat \<Rightarrow> uint32 list \<Rightarrow> uint32" where
  "sha256_w_next i w =
     (let t1 = (drop_bit 17 (w ! (i - 2)) OR push_bit (32 - 17) (w ! (i - 2))) XOR (drop_bit 19 (w ! (i - 2)) OR push_bit (32 - 19) (w ! (i - 2))) XOR drop_bit 10 (w ! (i - 2));
          t2 = (drop_bit 7 (w ! (i - 15)) OR push_bit (32 - 7) (w ! (i - 15))) XOR (drop_bit 18 (w ! (i - 15)) OR push_bit (32 - 18) (w ! (i - 15))) XOR drop_bit 3 (w ! (i - 15))
      in t1 + w ! (i - 7) + t2 + w ! (i - 16))"

definition sha256_w16 :: "byte list \<Rightarrow> uint32 list" where
  "sha256_w16 p = map (\<lambda>i. let j = i * 4 in
     push_bit 24 (ucast (p ! j)) OR push_bit 16 (ucast (p ! (j + 1))) OR push_bit 8 (ucast (p ! (j + 2)))
       OR ucast (p ! (j + 3))) [0..<16]"

definition sha256_w :: "byte list \<Rightarrow> uint32 list" where
  "sha256_w p = fold (\<lambda>i w. w[i := sha256_w_next i w]) [16..<64] (sha256_w16 p @ replicate 48 0)"

type_synonym sha256_regs = "uint32 \<times> uint32 \<times> uint32 \<times> uint32 \<times> uint32 \<times> uint32 \<times> uint32 \<times> uint32"

fun sha256_round_kw :: "uint32 \<Rightarrow> uint32 \<Rightarrow> sha256_regs \<Rightarrow> sha256_regs" where
  "sha256_round_kw k w (a, b, c, d, e, f, g, h) =
     (let t1 = h
            + ((drop_bit 6 e OR push_bit (32 - 6) e) XOR (drop_bit 11 e OR push_bit (32 - 11) e) XOR (drop_bit 25 e OR push_bit (32 - 25) e))
            + ((e AND f) XOR (NOT e AND g)) + k + w;
          t2 = ((drop_bit 2 a OR push_bit (32 - 2) a) XOR (drop_bit 13 a OR push_bit (32 - 13) a) XOR (drop_bit 22 a OR push_bit (32 - 22) a))
            + ((a AND b) XOR (a AND c) XOR (b AND c))
      in (t1 + t2, a, b, c, d + t1, e, f, g))"

definition sha256_round :: "uint32 list \<Rightarrow> nat \<Rightarrow> sha256_regs \<Rightarrow> sha256_regs" where
  "sha256_round w i = sha256_round_kw (sha256_K ! i) (w ! i)"

text \<open>One pass of the loop \<^verbatim>\<open>for len(p) >= _Chunk\<close>, on the 64 bytes it reads.\<close>

definition sha256_compress :: "uint32 list \<Rightarrow> byte list \<Rightarrow> uint32 list" where
  "sha256_compress s p =
     (let h0 = s ! 0; h1 = s ! 1; h2 = s ! 2; h3 = s ! 3;
          h4 = s ! 4; h5 = s ! 5; h6 = s ! 6; h7 = s ! 7;
          w = sha256_w p;
          (a, b, c, d, e, f, g, h) = fold (sha256_round w) [0..<64] (h0, h1, h2, h3, h4, h5, h6, h7)
      in [h0 + a, h1 + b, h2 + c, h3 + d, h4 + e, h5 + f, h6 + g, h7 + h])"

definition sha256_Block :: "uint32 list \<Rightarrow> byte list \<Rightarrow> uint32 list \<times> nat" where
  "sha256_Block s p = block_loop 64 sha256_compress s p 0"

subsection \<open>The methods of digest\<close>

record sha256_digest = "uint32 digest" +
  digest_is224 :: bool

definition sha256_init :: "uint32 list" where
  "sha256_init = [0x6A09E667, 0xBB67AE85, 0x3C6EF372, 0xA54FF53A,
     0x510E527F, 0x9B05688C, 0x1F83D9AB, 0x5BE0CD19]"

definition sha256_init224 :: "uint32 list" where
  "sha256_init224 = [0xC1059ED8, 0x367CD507, 0x3070DD17, 0xF70E5939,
     0xFFC00B31, 0x68581511, 0x64F98FA7, 0xBEFA4FA4]"

definition sha256_Reset :: "sha256_digest \<Rightarrow> sha256_digest" where
  "sha256_Reset d =
     (let d = (if \<not> digest_is224 d then d\<lparr>digest_s := sha256_init\<rparr> else d\<lparr>digest_s := sha256_init224\<rparr>)
      in d\<lparr>digest_nx := 0, digest_len := 0\<rparr>)"

definition sha256_zero :: sha256_digest where
  "sha256_zero = \<lparr>digest_s = replicate 8 0, digest_x = replicate 64 0, digest_nx = 0, digest_len = 0,
     digest_is224 = False\<rparr>"

definition sha256_New :: sha256_digest where
  "sha256_New = sha256_Reset sha256_zero"

definition sha256_New224 :: sha256_digest where
  "sha256_New224 = sha256_Reset (sha256_zero\<lparr>digest_is224 := True\<rparr>)"

definition sha256_Size :: "sha256_digest \<Rightarrow> nat" where
  "sha256_Size d = (if \<not> digest_is224 d then 32 else 28)"

definition sha256_Write :: "sha256_digest \<Rightarrow> byte list \<Rightarrow> sha256_digest \<times> nat" where
  "sha256_Write d p = digest_Write 64 sha256_Block d p"

definition sha256_Sum :: "sha256_digest \<Rightarrow> byte list go" where
  "sha256_Sum d0 =
     (case digest_Final 64 56 (be_bytes 8) sha256_Block d0 of
        Inl e \<Rightarrow> Inl e
      | Inr d \<Rightarrow>
          let p = concat (map (be_bytes 4) (digest_s d))
          in Inr (if digest_is224 d then take 28 p else p))"

definition sha256_ops :: "sha256_digest hash_ops" where
  "sha256_ops = \<lparr>hash_Write = sha256_Write, hash_Sum = sha256_Sum, hash_Reset = sha256_Reset, hash_Size = sha256_Size\<rparr>"

definition sha256_hash :: "byte list \<Rightarrow> byte list" where
  "sha256_hash m = concat (map (be_bytes 4)
     (md_state 64 56 (be_bytes 8) sha256_compress sha256_init m))"

definition sha256_hash224 :: "byte list \<Rightarrow> byte list" where
  "sha256_hash224 m = take 28 (concat (map (be_bytes 4)
     (md_state 64 56 (be_bytes 8) sha256_compress sha256_init224 m)))"

subsection \<open>The package satisfies the contract of hash.Hash, twice\<close>

lemma sha256_ops_simps [simp]:
  "hash_Write sha256_ops = sha256_Write" "hash_Sum sha256_ops = sha256_Sum"
  "hash_Reset sha256_ops = sha256_Reset" "hash_Size sha256_ops = sha256_Size"
  by (simp_all add: sha256_ops_def)

lemma length_sha256_compress [simp]: "length (sha256_compress s p) = 8"
  by (simp add: sha256_compress_def Let_def split: prod.splits)

lemma digest_is224_more: "digest.more d = \<lparr>digest_is224 = b\<rparr> \<longleftrightarrow> digest_is224 d = b"
  by (cases d) simp

interpretation sha256: packaged_digest 64 56 "be_bytes 8" sha256_compress sha256_Block sha256_init
  sha256_ops sha256_New "\<lparr>digest_is224 = False\<rparr>" "\<lambda>s. concat (map (be_bytes 4) s)" 32
proof
  show "\<exists>d. sha256_New = d\<lparr>digest_s := sha256_init, digest_nx := 0, digest_len := 0\<rparr> \<and>
      length (digest_x d) = 64 \<and> digest.more d = \<lparr>digest_is224 = False\<rparr>"
    by (intro exI [of _ sha256_New]) (simp add: sha256_New_def sha256_Reset_def sha256_zero_def digest_is224_more)
  show "length (concat (map (be_bytes 4)
      (md_state 64 56 (be_bytes 8) sha256_compress sha256_init m))) = 32" for m
    by (simp add: length_concat_const length_md_state [where n = 8] sha256_init_def)
qed (auto simp: sha256_Block_def block_loop_eq sha256_Write_def [abs_def] sha256_Sum_def sha256_Reset_def
       sha256_Size_def digest_is224_more split: sum.splits)

interpretation sha256_224: packaged_digest 64 56 "be_bytes 8" sha256_compress sha256_Block sha256_init224
  sha256_ops sha256_New224 "\<lparr>digest_is224 = True\<rparr>" "\<lambda>s. take 28 (concat (map (be_bytes 4) s))" 28
proof
  show "\<exists>d. sha256_New224 = d\<lparr>digest_s := sha256_init224, digest_nx := 0, digest_len := 0\<rparr> \<and>
      length (digest_x d) = 64 \<and> digest.more d = \<lparr>digest_is224 = True\<rparr>"
    by (intro exI [of _ sha256_New224]) (simp add: sha256_New224_def sha256_Reset_def sha256_zero_def digest_is224_more)
  show "length (take 28 (concat (map (be_bytes 4)
      (md_state 64 56 (be_bytes 8) sha256_compress sha256_init224 m)))) = 28" for m
    by (simp add: length_concat_const length_md_state [where n = 8] sha256_init224_def)
qed (auto simp: sha256_Block_def block_loop_eq sha256_Write_def [abs_def] sha256_Sum_def sha256_Reset_def
       sha256_Size_def digest_is224_more split: sum.splits)

lemma sha256_streams: "hash_streams sha256_ops sha256_New sha256_hash"
  unfolding sha256_hash_def [abs_def] by (rule sha256.iface.streams)

lemma sha256_streams224: "hash_streams sha256_ops sha256_New224 sha256_hash224"
  unfolding sha256_hash224_def [abs_def] by (rule sha256_224.iface.streams)

text \<open>The schedule in the form in which it is evaluated.\<close>

lemma sha256_w_code [code]:
  "sha256_w p = rev (sched 48 (\<lambda>ws.
     let t1 = (drop_bit 17 (ws ! 1) OR push_bit 15 (ws ! 1)) XOR (drop_bit 19 (ws ! 1) OR push_bit 13 (ws ! 1)) XOR drop_bit 10 (ws ! 1);
         t2 = (drop_bit 7 (ws ! 14) OR push_bit 25 (ws ! 14)) XOR (drop_bit 18 (ws ! 14) OR push_bit 14 (ws ! 14)) XOR drop_bit 3 (ws ! 14)
     in evalw (t1 + ws ! 6 + t2 + ws ! 15)) (rev (map evalw (sha256_w16 p))))"
  unfolding sha256_w_def evalw_def list.map_ident
  by (rule fold_sched) (auto simp: sha256_w16_def sha256_w_next_def nth_append rev_nth numeral_2_eq_2)

lemma sha256_compress_code [code]:
  "sha256_compress s p =
     (let h0 = s ! 0; h1 = s ! 1; h2 = s ! 2; h3 = s ! 3;
          h4 = s ! 4; h5 = s ! 5; h6 = s ! 6; h7 = s ! 7;
          (a, b, c, d, e, f, g, h) = fold (\<lambda>(k, w). sha256_round_kw k w) (zip sha256_K (sha256_w p))
            (h0, h1, h2, h3, h4, h5, h6, h7)
      in [h0 + a, h1 + b, h2 + c, h3 + d, h4 + e, h5 + f, h6 + g, h7 + h])"
proof -
  have "length sha256_K = 64" by (simp add: sha256_K_def)
  moreover have "length (sha256_w p) = 64" by (simp add: sha256_w_code sha256_w16_def)
  ultimately show ?thesis
    unfolding sha256_compress_def sha256_round_def [abs_def] by (simp add: fold_index_zip [of _ 64])
qed

lemma sha256_abc:
  "sha256_Sum (fst (sha256_Write sha256_New [0x61, 0x62, 0x63])) =
     Inr [0xba, 0x78, 0x16, 0xbf, 0x8f, 0x01, 0xcf, 0xea, 0x41, 0x41, 0x40, 0xde, 0x5d, 0xae, 0x22, 0x23,
       0xb0, 0x03, 0x61, 0xa3, 0x96, 0x17, 0x7a, 0x9c, 0xb4, 0x10, 0xff, 0x61, 0xf2, 0x00, 0x15, 0xad]"
  by code_simp

end
