(* ===== verification/Sha512.thy ===== *)
theory Sha512
  imports Digest
begin

text \<open>
  Package \<^verbatim>\<open>crypto/sha512\<close>: the struct \<^verbatim>\<open>digest\<close>, which adds the flag \<^verbatim>\<open>is384\<close> to the
  fields of the other digests, with its methods (\<^verbatim>\<open>sha512.go\<close>) and the block function
  (\<^verbatim>\<open>sha512block.go\<close>). The two constructors give two hashes over the same methods, so the
  contract of \<^verbatim>\<open>hash.Hash\<close> is interpreted twice.
\<close>

subsection \<open>The block function\<close>

definition sha512_K :: "uint64 list" where
  "sha512_K = concat [
    [0x428a2f98d728ae22, 0x7137449123ef65cd, 0xb5c0fbcfec4d3b2f, 0xe9b5dba58189dbbc],
    [0x3956c25bf348b538, 0x59f111f1b605d019, 0x923f82a4af194f9b, 0xab1c5ed5da6d8118],
    [0xd807aa98a3030242, 0x12835b0145706fbe, 0x243185be4ee4b28c, 0x550c7dc3d5ffb4e2],
    [0x72be5d74f27b896f, 0x80deb1fe3b1696b1, 0x9bdc06a725c71235, 0xc19bf174cf692694],
    [0xe49b69c19ef14ad2, 0xefbe4786384f25e3, 0x0fc19dc68b8cd5b5, 0x240ca1cc77ac9c65],
    [0x2de92c6f592b0275, 0x4a7484aa6ea6e483, 0x5cb0a9dcbd41fbd4, 0x76f988da831153b5],
    [0x983e5152ee66dfab, 0xa831c66d2db43210, 0xb00327c898fb213f, 0xbf597fc7beef0ee4],
    [0xc6e00bf33da88fc2, 0xd5a79147930aa725, 0x06ca6351e003826f, 0x142929670a0e6e70],
    [0x27b70a8546d22ffc, 0x2e1b21385c26c926, 0x4d2c6dfc5ac42aed, 0x53380d139d95b3df],
    [0x650a73548baf63de, 0x766a0abb3c77b2a8, 0x81c2c92e47edaee6, 0x92722c851482353b],
    [0xa2bfe8a14cf10364, 0xa81a664bbc423001, 0xc24b8b70d0f89791, 0xc76c51a30654be30],
    [0xd192e819d6ef5218, 0xd69906245565a910, 0xf40e35855771202a, 0x106aa07032bbd1b8],
    [0x19a4c116b8d2d0c8, 0x1e376c085141ab53, 0x2748774cdf8eeb99, 0x34b0bcb5e19b48a8],
    [0x391c0cb3c5c95a63, 0x4ed8aa4ae3418acb, 0x5b9cca4f7763e373, 0x682e6ff3d6b2b8a3],
    [0x748f82ee5defb2fc, 0x78a5636f43172f60, 0x84c87814a1f0ab72, 0x8cc702081a6439ec],
    [0x90befffa23631e28, 0xa4506cebde82bde9, 0xbef9a3f7b2c67915, 0xc67178f2e372532b],
    [0xca273eceea26619c, 0xd186b8c721c0c207, 0xeada7dd6cde0eb1e, 0xf57d4f7fee6ed178],
    [0x06f067aa72176fba, 0x0a637dc5a2c898a6, 0x113f9804bef90dae, 0x1b710b35131c471b],
    [0x28db77f523047d84, 0x32caab7b40c72493, 0x3c9ebe0a15c9bebc, 0x431d67c49c100d4c],
    [0x4cc5d4becb3e42b6, 0x597f299cfc657e2a, 0x5fcb6fab3ad6faec, 0x6c44198c4a475817]]"

definition sha512_w_next :: "nat \<Rightarrow> uint64 list \<Rightarrow> uint64" where
  "sha512_w_next i w =
     (let t1 = (drop_bit 19 (w ! (i - 2)) OR push_bit (64 - 19) (w ! (i - 2))) XOR (drop_bit 61 (w ! (i - 2)) OR push_bit (64 - 61) (w ! (i - 2))) XOR drop_bit 6 (w ! (i - 2));
          t2 = (drop_bit 1 (w ! (i - 15)) OR push_bit (64 - 1) (w ! (i - 15))) XOR (drop_bit 8 (w ! (i - 15)) OR push_bit (64 - 8) (w ! (i - 15))) XOR drop_bit 7 (w ! (i - 15))
      in t1 + w ! (i - 7) + t2 + w ! (i - 16))"

definition sha512_w16 :: "byte list \<Rightarrow> uint64 list" where
  "sha512_w16 p = map (\<lambda>i. let j = i * 8 in
     push_bit 56 (ucast (p ! j)) OR push_bit 48 (ucast (p ! (j + 1))) OR push_bit 40 (ucast (p ! (j + 2)))
       OR push_bit 32 (ucast (p ! (j + 3))) OR push_bit 24 (ucast (p ! (j + 4)))
       OR push_bit 16 (ucast (p ! (j + 5))) OR push_bit 8 (ucast (p ! (j + 6))) OR ucast (p ! (j + 7))) [0..<16]"

definition sha512_w :: "byte list \<Rightarrow> uint64 list" where
  "sha512_w p = fold (\<lambda>i w. w[i := sha512_w_next i w]) [16..<80] (sha512_w16 p @ replicate 64 0)"

type_synonym sha512_regs = "uint64 \<times> uint64 \<times> uint64 \<times> uint64 \<times> uint64 \<times> uint64 \<times> uint64 \<times> uint64"

fun sha512_round_kw :: "uint64 \<Rightarrow> uint64 \<Rightarrow> sha512_regs \<Rightarrow> sha512_regs" where
  "sha512_round_kw k w (a, b, c, d, e, f, g, h) =
     (let t1 = h
            + ((drop_bit 14 e OR push_bit (64 - 14) e) XOR (drop_bit 18 e OR push_bit (64 - 18) e) XOR (drop_bit 41 e OR push_bit (64 - 41) e))
            + ((e AND f) XOR (NOT e AND g)) + k + w;
          t2 = ((drop_bit 28 a OR push_bit (64 - 28) a) XOR (drop_bit 34 a OR push_bit (64 - 34) a) XOR (drop_bit 39 a OR push_bit (64 - 39) a))
            + ((a AND b) XOR (a AND c) XOR (b AND c))
      in (t1 + t2, a, b, c, d + t1, e, f, g))"

definition sha512_round :: "uint64 list \<Rightarrow> nat \<Rightarrow> sha512_regs \<Rightarrow> sha512_regs" where
  "sha512_round w i = sha512_round_kw (sha512_K ! i) (w ! i)"

text \<open>One pass of the loop \<^verbatim>\<open>for len(p) >= _Chunk\<close>, on the 128 bytes it reads.\<close>

definition sha512_compress :: "uint64 list \<Rightarrow> byte list \<Rightarrow> uint64 list" where
  "sha512_compress s p =
     (let h0 = s ! 0; h1 = s ! 1; h2 = s ! 2; h3 = s ! 3;
          h4 = s ! 4; h5 = s ! 5; h6 = s ! 6; h7 = s ! 7;
          w = sha512_w p;
          (a, b, c, d, e, f, g, h) = fold (sha512_round w) [0..<80] (h0, h1, h2, h3, h4, h5, h6, h7)
      in [h0 + a, h1 + b, h2 + c, h3 + d, h4 + e, h5 + f, h6 + g, h7 + h])"

definition sha512_Block :: "uint64 list \<Rightarrow> byte list \<Rightarrow> uint64 list \<times> nat" where
  "sha512_Block s p = block_loop 128 sha512_compress s p 0"

subsection \<open>The methods of digest\<close>

record sha512_digest = "uint64 digest" +
  digest_is384 :: bool

definition sha512_init :: "uint64 list" where
  "sha512_init = [0x6a09e667f3bcc908, 0xbb67ae8584caa73b, 0x3c6ef372fe94f82b, 0xa54ff53a5f1d36f1,
     0x510e527fade682d1, 0x9b05688c2b3e6c1f, 0x1f83d9abfb41bd6b, 0x5be0cd19137e2179]"

definition sha512_init384 :: "uint64 list" where
  "sha512_init384 = [0xcbbb9d5dc1059ed8, 0x629a292a367cd507, 0x9159015a3070dd17, 0x152fecd8f70e5939,
     0x67332667ffc00b31, 0x8eb44a8768581511, 0xdb0c2e0d64f98fa7, 0x47b5481dbefa4fa4]"

definition sha512_Reset :: "sha512_digest \<Rightarrow> sha512_digest" where
  "sha512_Reset d =
     (let d = (if \<not> digest_is384 d then d\<lparr>digest_s := sha512_init\<rparr> else d\<lparr>digest_s := sha512_init384\<rparr>)
      in d\<lparr>digest_nx := 0, digest_len := 0\<rparr>)"

definition sha512_zero :: sha512_digest where
  "sha512_zero = \<lparr>digest_s = replicate 8 0, digest_x = replicate 128 0, digest_nx = 0, digest_len = 0,
     digest_is384 = False\<rparr>"

definition sha512_New :: sha512_digest where
  "sha512_New = sha512_Reset sha512_zero"

definition sha512_New384 :: sha512_digest where
  "sha512_New384 = sha512_Reset (sha512_zero\<lparr>digest_is384 := True\<rparr>)"

definition sha512_Size :: "sha512_digest \<Rightarrow> nat" where
  "sha512_Size d = (if \<not> digest_is384 d then 64 else 48)"

definition sha512_Write :: "sha512_digest \<Rightarrow> byte list \<Rightarrow> sha512_digest \<times> nat" where
  "sha512_Write d p = digest_Write 128 sha512_Block d p"

definition sha512_Sum :: "sha512_digest \<Rightarrow> byte list go" where
  "sha512_Sum d0 =
     (case digest_Final 128 112 (be_bytes 16) sha512_Block d0 of
        Inl e \<Rightarrow> Inl e
      | Inr d \<Rightarrow>
          let p = concat (map (be_bytes 8) (digest_s d))
          in Inr (if digest_is384 d then take 48 p else p))"

definition sha512_ops :: "sha512_digest hash_ops" where
  "sha512_ops = \<lparr>hash_Write = sha512_Write, hash_Sum = sha512_Sum, hash_Reset = sha512_Reset, hash_Size = sha512_Size\<rparr>"

definition sha512_hash :: "byte list \<Rightarrow> byte list" where
  "sha512_hash m = concat (map (be_bytes 8)
     (md_state 128 112 (be_bytes 16) sha512_compress sha512_init m))"

definition sha512_hash384 :: "byte list \<Rightarrow> byte list" where
  "sha512_hash384 m = take 48 (concat (map (be_bytes 8)
     (md_state 128 112 (be_bytes 16) sha512_compress sha512_init384 m)))"

subsection \<open>The package satisfies the contract of hash.Hash, twice\<close>

lemma sha512_ops_simps [simp]:
  "hash_Write sha512_ops = sha512_Write" "hash_Sum sha512_ops = sha512_Sum"
  "hash_Reset sha512_ops = sha512_Reset" "hash_Size sha512_ops = sha512_Size"
  by (simp_all add: sha512_ops_def)

lemma length_sha512_compress [simp]: "length (sha512_compress s p) = 8"
  by (simp add: sha512_compress_def Let_def split: prod.splits)

lemma digest_is384_more: "digest.more d = \<lparr>digest_is384 = b\<rparr> \<longleftrightarrow> digest_is384 d = b"
  by (cases d) simp

interpretation sha512: packaged_digest 128 112 "be_bytes 16" sha512_compress sha512_Block sha512_init
  sha512_ops sha512_New "\<lparr>digest_is384 = False\<rparr>" "\<lambda>s. concat (map (be_bytes 8) s)" 64
proof
  show "\<exists>d. sha512_New = d\<lparr>digest_s := sha512_init, digest_nx := 0, digest_len := 0\<rparr> \<and>
      length (digest_x d) = 128 \<and> digest.more d = \<lparr>digest_is384 = False\<rparr>"
    by (intro exI [of _ sha512_New]) (simp add: sha512_New_def sha512_Reset_def sha512_zero_def digest_is384_more)
  show "length (concat (map (be_bytes 8)
      (md_state 128 112 (be_bytes 16) sha512_compress sha512_init m))) = 64" for m
    by (simp add: length_concat_const length_md_state [where n = 8] sha512_init_def)
qed (auto simp: sha512_Block_def block_loop_eq sha512_Write_def [abs_def] sha512_Sum_def sha512_Reset_def
       sha512_Size_def digest_is384_more split: sum.splits)

interpretation sha512_384: packaged_digest 128 112 "be_bytes 16" sha512_compress sha512_Block sha512_init384
  sha512_ops sha512_New384 "\<lparr>digest_is384 = True\<rparr>" "\<lambda>s. take 48 (concat (map (be_bytes 8) s))" 48
proof
  show "\<exists>d. sha512_New384 = d\<lparr>digest_s := sha512_init384, digest_nx := 0, digest_len := 0\<rparr> \<and>
      length (digest_x d) = 128 \<and> digest.more d = \<lparr>digest_is384 = True\<rparr>"
    by (intro exI [of _ sha512_New384]) (simp add: sha512_New384_def sha512_Reset_def sha512_zero_def digest_is384_more)
  show "length (take 48 (concat (map (be_bytes 8)
      (md_state 128 112 (be_bytes 16) sha512_compress sha512_init384 m)))) = 48" for m
    by (simp add: length_concat_const length_md_state [where n = 8] sha512_init384_def)
qed (auto simp: sha512_Block_def block_loop_eq sha512_Write_def [abs_def] sha512_Sum_def sha512_Reset_def
       sha512_Size_def digest_is384_more split: sum.splits)

lemma sha512_streams: "hash_streams sha512_ops sha512_New sha512_hash"
  unfolding sha512_hash_def [abs_def] by (rule sha512.iface.streams)

lemma sha512_streams384: "hash_streams sha512_ops sha512_New384 sha512_hash384"
  unfolding sha512_hash384_def [abs_def] by (rule sha512_384.iface.streams)

text \<open>The schedule in the form in which it is evaluated.\<close>

lemma sha512_w_code [code]:
  "sha512_w p = rev (sched 64 (\<lambda>ws.
     let t1 = (drop_bit 19 (ws ! 1) OR push_bit 45 (ws ! 1)) XOR (drop_bit 61 (ws ! 1) OR push_bit 3 (ws ! 1)) XOR drop_bit 6 (ws ! 1);
         t2 = (drop_bit 1 (ws ! 14) OR push_bit 63 (ws ! 14)) XOR (drop_bit 8 (ws ! 14) OR push_bit 56 (ws ! 14)) XOR drop_bit 7 (ws ! 14)
     in evalw (t1 + ws ! 6 + t2 + ws ! 15)) (rev (map evalw (sha512_w16 p))))"
  unfolding sha512_w_def evalw_def list.map_ident
  by (rule fold_sched) (auto simp: sha512_w16_def sha512_w_next_def nth_append rev_nth numeral_2_eq_2)

lemma sha512_compress_code [code]:
  "sha512_compress s p =
     (let h0 = s ! 0; h1 = s ! 1; h2 = s ! 2; h3 = s ! 3;
          h4 = s ! 4; h5 = s ! 5; h6 = s ! 6; h7 = s ! 7;
          (a, b, c, d, e, f, g, h) = fold (\<lambda>(k, w). sha512_round_kw k w) (zip sha512_K (sha512_w p))
            (h0, h1, h2, h3, h4, h5, h6, h7)
      in [h0 + a, h1 + b, h2 + c, h3 + d, h4 + e, h5 + f, h6 + g, h7 + h])"
proof -
  have "length sha512_K = 80" by (simp add: sha512_K_def)
  moreover have "length (sha512_w p) = 80" by (simp add: sha512_w_code sha512_w16_def)
  ultimately show ?thesis
    unfolding sha512_compress_def sha512_round_def [abs_def] by (simp add: fold_index_zip [of _ 80])
qed

end
