(* ===== verification/Ripemd160.thy ===== *)
theory Ripemd160
  imports Digest
begin

text \<open>
  Package \<^verbatim>\<open>crypto/ripemd160\<close>: the struct \<^verbatim>\<open>digest\<close> with its methods
  (\<^verbatim>\<open>ripemd160.go\<close>, where the byte count is the field \<^verbatim>\<open>tc\<close>) and the block function
  (\<^verbatim>\<open>ripemd160block.go\<close>). Each of its five loops advances two lines, which differ in the
  round function, the constant, and the tables of indices and shifts; in the first loop of
  the one line and the last of the other the source adds no constant, which is 0 here.
\<close>

subsection \<open>The block function\<close>

definition ripemd160_n :: "nat list" where
  "ripemd160_n = [
     0, 1, 2, 3, 4, 5, 6, 7, 8, 9, 10, 11, 12, 13, 14, 15,
     7, 4, 13, 1, 10, 6, 15, 3, 12, 0, 9, 5, 2, 14, 11, 8,
     3, 10, 14, 4, 9, 15, 8, 1, 2, 7, 0, 6, 13, 11, 5, 12,
     1, 9, 11, 10, 0, 8, 12, 4, 13, 3, 7, 15, 14, 5, 6, 2,
     4, 0, 5, 9, 7, 12, 2, 10, 14, 1, 3, 8, 11, 6, 15, 13]"

definition ripemd160_r :: "nat list" where
  "ripemd160_r = [
     11, 14, 15, 12, 5, 8, 7, 9, 11, 13, 14, 15, 6, 7, 9, 8,
     7, 6, 8, 13, 11, 9, 7, 15, 7, 12, 15, 9, 11, 7, 13, 12,
     11, 13, 6, 7, 14, 9, 13, 15, 14, 8, 13, 6, 5, 12, 7, 5,
     11, 12, 14, 15, 14, 15, 9, 8, 9, 14, 5, 6, 8, 6, 5, 12,
     9, 15, 5, 11, 6, 8, 13, 12, 5, 12, 13, 14, 11, 8, 5, 6]"

definition ripemd160_n' :: "nat list" where
  "ripemd160_n' = [
     5, 14, 7, 0, 9, 2, 11, 4, 13, 6, 15, 8, 1, 10, 3, 12,
     6, 11, 3, 7, 0, 13, 5, 10, 14, 15, 8, 12, 4, 9, 1, 2,
     15, 5, 1, 3, 7, 14, 6, 9, 11, 8, 12, 2, 10, 0, 4, 13,
     8, 6, 4, 1, 3, 11, 15, 0, 5, 12, 2, 13, 9, 7, 10, 14,
     12, 15, 10, 4, 1, 5, 8, 7, 6, 2, 13, 14, 0, 3, 9, 11]"

definition ripemd160_r' :: "nat list" where
  "ripemd160_r' = [
     8, 9, 9, 11, 13, 15, 15, 5, 7, 7, 8, 11, 14, 14, 12, 6,
     9, 13, 15, 7, 12, 8, 9, 11, 7, 7, 12, 7, 6, 15, 13, 11,
     9, 7, 15, 11, 8, 6, 6, 14, 12, 13, 5, 14, 13, 13, 7, 5,
     15, 5, 8, 11, 14, 14, 6, 14, 6, 9, 12, 9, 12, 5, 15, 8,
     8, 5, 12, 9, 12, 5, 14, 6, 8, 13, 6, 5, 15, 13, 11, 11]"

type_synonym ripemd160_regs = "uint32 \<times> uint32 \<times> uint32 \<times> uint32 \<times> uint32"
type_synonym ripemd160_fun = "uint32 \<Rightarrow> uint32 \<Rightarrow> uint32 \<Rightarrow> uint32"

text \<open>One line of one iteration: the new \<open>a, b, c, d, e\<close>.\<close>

fun ripemd160_line ::
  "nat list \<Rightarrow> nat list \<Rightarrow> ripemd160_fun \<Rightarrow> uint32 \<Rightarrow> uint32 list \<Rightarrow> nat \<Rightarrow> ripemd160_regs
    \<Rightarrow> ripemd160_regs" where
  "ripemd160_line ns rs F K x i (a, b, c, d, e) =
     (let alpha = a + F b c d + x ! (ns ! i) + K;
          s = rs ! i;
          alpha = (push_bit s alpha OR drop_bit (32 - s) alpha) + e;
          beta = push_bit 10 c OR drop_bit 22 c
      in (e, alpha, b, beta, d))"

definition ripemd160_round ::
  "ripemd160_fun \<Rightarrow> uint32 \<Rightarrow> ripemd160_fun \<Rightarrow> uint32 \<Rightarrow> uint32 list \<Rightarrow> nat
    \<Rightarrow> ripemd160_regs \<times> ripemd160_regs \<Rightarrow> ripemd160_regs \<times> ripemd160_regs" where
  "ripemd160_round F K F' K' x i lr =
     (ripemd160_line ripemd160_n ripemd160_r F K x i (fst lr),
      ripemd160_line ripemd160_n' ripemd160_r' F' K' x i (snd lr))"

definition ripemd160_f1 :: ripemd160_fun where "ripemd160_f1 b c d = b XOR c XOR d"

definition ripemd160_f2 :: ripemd160_fun where "ripemd160_f2 b c d = (b AND c) OR (NOT b AND d)"

definition ripemd160_f3 :: ripemd160_fun where "ripemd160_f3 b c d = (b OR NOT c) XOR d"

definition ripemd160_f4 :: ripemd160_fun where "ripemd160_f4 b c d = (b AND d) OR (c AND NOT d)"

definition ripemd160_f5 :: ripemd160_fun where "ripemd160_f5 b c d = b XOR (c OR NOT d)"

definition ripemd160_x :: "byte list \<Rightarrow> uint32 list" where
  "ripemd160_x p = map (\<lambda>i. let j = 4 * i in
     ucast (p ! j) OR push_bit 8 (ucast (p ! (j + 1))) OR push_bit 16 (ucast (p ! (j + 2)))
       OR push_bit 24 (ucast (p ! (j + 3)))) [0..<16]"

text \<open>One pass of the loop \<^verbatim>\<open>for len(p) >= BlockSize\<close>, on the 64 bytes it reads.\<close>

definition ripemd160_compress :: "uint32 list \<Rightarrow> byte list \<Rightarrow> uint32 list" where
  "ripemd160_compress s p =
     (let r = (s ! 0, s ! 1, s ! 2, s ! 3, s ! 4);
          x = ripemd160_x p;
          lr = fold (ripemd160_round ripemd160_f1 0 ripemd160_f5 0x50a28be6 x) [0..<16] (r, r);
          lr = fold (ripemd160_round ripemd160_f2 0x5a827999 ripemd160_f4 0x5c4dd124 x) [16..<32] lr;
          lr = fold (ripemd160_round ripemd160_f3 0x6ed9eba1 ripemd160_f3 0x6d703ef3 x) [32..<48] lr;
          lr = fold (ripemd160_round ripemd160_f4 0x8f1bbcdc ripemd160_f2 0x7a6d76e9 x) [48..<64] lr;
          lr = fold (ripemd160_round ripemd160_f5 0xa953fd4e ripemd160_f1 0 x) [64..<80] lr;
          ((a, b, c, d, e), (aa, bb, cc, dd, ee)) = lr;
          dd = dd + (c + s ! 1)
      in [dd, s ! 2 + d + ee, s ! 3 + e + aa, s ! 4 + a + bb, s ! 0 + b + cc])"

definition ripemd160_Block :: "uint32 list \<Rightarrow> byte list \<Rightarrow> uint32 list \<times> nat" where
  "ripemd160_Block s p = block_loop 64 ripemd160_compress s p 0"

subsection \<open>The methods of digest\<close>

definition ripemd160_init :: "uint32 list" where
  "ripemd160_init = [0x67452301, 0xefcdab89, 0x98badcfe, 0x10325476, 0xc3d2e1f0]"

definition ripemd160_Reset :: "uint32 digest \<Rightarrow> uint32 digest" where
  "ripemd160_Reset d = d\<lparr>digest_s := ripemd160_init, digest_nx := 0, digest_len := 0\<rparr>"

definition ripemd160_New :: "uint32 digest" where
  "ripemd160_New = ripemd160_Reset
     \<lparr>digest_s = replicate 5 0, digest_x = replicate 64 0, digest_nx = 0, digest_len = 0\<rparr>"

definition ripemd160_Size :: "uint32 digest \<Rightarrow> nat" where
  "ripemd160_Size d = 20"

definition ripemd160_Write :: "uint32 digest \<Rightarrow> byte list \<Rightarrow> uint32 digest \<times> nat" where
  "ripemd160_Write d p = digest_Write 64 ripemd160_Block d p"

definition ripemd160_Sum :: "uint32 digest \<Rightarrow> byte list go" where
  "ripemd160_Sum d0 =
     (case digest_Final 64 56 (le_bytes 8) ripemd160_Block d0 of
        Inl e \<Rightarrow> Inl e
      | Inr d \<Rightarrow> Inr (concat (map (le_bytes 4) (digest_s d))))"

definition ripemd160_ops :: "uint32 digest hash_ops" where
  "ripemd160_ops = \<lparr>hash_Write = ripemd160_Write, hash_Sum = ripemd160_Sum, hash_Reset = ripemd160_Reset, hash_Size = ripemd160_Size\<rparr>"

definition ripemd160_hash :: "byte list \<Rightarrow> byte list" where
  "ripemd160_hash m = concat (map (le_bytes 4) (md_state 64 56 (le_bytes 8) ripemd160_compress ripemd160_init m))"

subsection \<open>The package satisfies the contract of hash.Hash\<close>

lemma ripemd160_ops_simps [simp]:
  "hash_Write ripemd160_ops = ripemd160_Write" "hash_Sum ripemd160_ops = ripemd160_Sum"
  "hash_Reset ripemd160_ops = ripemd160_Reset" "hash_Size ripemd160_ops = ripemd160_Size"
  by (simp_all add: ripemd160_ops_def)

lemma length_ripemd160_compress [simp]: "length (ripemd160_compress s p) = 5"
  by (simp add: ripemd160_compress_def Let_def split: prod.splits)

interpretation ripemd160: packaged_digest 64 56 "le_bytes 8" ripemd160_compress ripemd160_Block ripemd160_init
  ripemd160_ops ripemd160_New "()" "\<lambda>s. concat (map (le_bytes 4) s)" 20
proof
  show "\<exists>d. ripemd160_New = d\<lparr>digest_s := ripemd160_init, digest_nx := 0, digest_len := 0\<rparr> \<and>
      length (digest_x d) = 64 \<and> digest.more d = ()"
    by (intro exI [of _ ripemd160_New]) (simp add: ripemd160_New_def ripemd160_Reset_def)
  show "length (concat (map (le_bytes 4) (md_state 64 56 (le_bytes 8) ripemd160_compress ripemd160_init m))) = 20" for m
    by (simp add: length_concat_const length_md_state [where n = 5] ripemd160_init_def)
qed (auto simp: ripemd160_Block_def block_loop_eq ripemd160_Write_def [abs_def] ripemd160_Sum_def ripemd160_Reset_def
       ripemd160_Size_def split: sum.splits)

lemma ripemd160_streams: "hash_streams ripemd160_ops ripemd160_New ripemd160_hash"
  unfolding ripemd160_hash_def [abs_def] by (rule ripemd160.iface.streams)

lemma ripemd160_abc:
  "ripemd160_Sum (fst (ripemd160_Write ripemd160_New [0x61, 0x62, 0x63])) =
     Inr [0x8e, 0xb2, 0x08, 0xf7, 0xe0, 0x5d, 0x98, 0x7a, 0x9b, 0x04, 0x4a, 0x8e, 0x98, 0xc6, 0xb0, 0x87,
       0xf1, 0x5a, 0x0b, 0xfc]"
  by code_simp

end
