(* ===== verification/Adler32.thy ===== *)
theory Adler32
  imports Hash_Iface
begin

text \<open>
  Package \<^verbatim>\<open>hash/adler32\<close>. The code sums in 32-bit words and takes the remainder modulo
  65521 only when the sums grow large; the invariants in its comments say that no addition
  wraps. The reference \<open>adler32_ref\<close> is the definition of RFC 1950, quoted in the package
  comment, with a remainder after every byte and numbers without bound.
\<close>

subsection \<open>The code\<close>

definition adler32_mod :: uint32 where "adler32_mod = 65521"

record adler32_digest =
  adler32_a :: uint32
  adler32_b :: uint32

definition adler32_Reset :: "adler32_digest \<Rightarrow> adler32_digest" where
  "adler32_Reset d = d\<lparr>adler32_a := 1, adler32_b := 0\<rparr>"

definition adler32_New :: adler32_digest where
  "adler32_New = adler32_Reset \<lparr>adler32_a = 0, adler32_b = 0\<rparr>"

definition adler32_Size :: "adler32_digest \<Rightarrow> nat" where
  "adler32_Size d = 4"

text \<open>
  The loop of \<^verbatim>\<open>update\<close>. The constant \<^verbatim>\<open>(0xffffffff-255)/2\<close> is evaluated by the compiler
  without wrap-around; it is written out here as it is in the source, on words that do not
  wrap either.
\<close>

fun adler32_update :: "uint32 \<Rightarrow> uint32 \<Rightarrow> byte list \<Rightarrow> uint32 \<times> uint32" where
  "adler32_update a b [] = (a, b)"
| "adler32_update a b (x # p) =
     (let a = a + ucast x;
          b = b + a
      in if b > (0xffffffff - 255) div 2
         then adler32_update (a mod adler32_mod) (b mod adler32_mod) p
         else adler32_update a b p)"

definition adler32_finish :: "uint32 \<times> uint32 \<Rightarrow> uint32" where
  "adler32_finish ab =
     (let (a, b) = ab;
          (a, b) = (if b \<ge> adler32_mod then (a mod adler32_mod, b mod adler32_mod) else (a, b))
      in push_bit 16 b OR a)"

definition adler32_Write :: "adler32_digest \<Rightarrow> byte list \<Rightarrow> adler32_digest \<times> nat" where
  "adler32_Write d p =
     (let (a, b) = adler32_update (adler32_a d) (adler32_b d) p
      in (d\<lparr>adler32_a := a, adler32_b := b\<rparr>, length p))"

definition adler32_Sum32 :: "adler32_digest \<Rightarrow> uint32" where
  "adler32_Sum32 d = adler32_finish (adler32_a d, adler32_b d)"

definition adler32_Sum :: "adler32_digest \<Rightarrow> byte list go" where
  "adler32_Sum d =
     (let s = adler32_Sum32 d in Inr [byte_at 24 s, byte_at 16 s, byte_at 8 s, byte_at 0 s])"

definition adler32_Checksum :: "byte list \<Rightarrow> uint32" where
  "adler32_Checksum data = adler32_finish (adler32_update 1 0 data)"

definition adler32_ops :: "adler32_digest hash_ops" where
  "adler32_ops = \<lparr>hash_Write = adler32_Write, hash_Sum = adler32_Sum,
     hash_Reset = adler32_Reset, hash_Size = adler32_Size\<rparr>"

subsection \<open>The definition of RFC 1950\<close>

fun adler32_sums :: "nat \<Rightarrow> nat \<Rightarrow> byte list \<Rightarrow> nat \<times> nat" where
  "adler32_sums s1 s2 [] = (s1, s2)"
| "adler32_sums s1 s2 (x # p) =
     (let s1 = (s1 + unat x) mod 65521; s2 = (s2 + s1) mod 65521 in adler32_sums s1 s2 p)"

definition adler32_ref :: "byte list \<Rightarrow> nat" where
  "adler32_ref m = (let (s1, s2) = adler32_sums 1 0 m in s2 * 65536 + s1)"

subsection \<open>The invariants of the struct\<close>

text \<open>
  The two invariants in the comments of \<^verbatim>\<open>digest\<close>, and what the words stand for.
\<close>

definition adler32_inv :: "uint32 \<Rightarrow> uint32 \<Rightarrow> bool" where
  "adler32_inv a b \<longleftrightarrow>
     (unat a < 65521 \<and> unat b < 65521 \<or> unat a \<le> unat b) \<and> unat a + unat b + 255 \<le> 0xffffffff"

definition adler32_rep :: "uint32 \<Rightarrow> uint32 \<Rightarrow> nat \<Rightarrow> nat \<Rightarrow> bool" where
  "adler32_rep a b s1 s2 \<longleftrightarrow>
     adler32_inv a b \<and> unat a mod 65521 = s1 \<and> unat b mod 65521 = s2"

text \<open>One byte: neither addition wraps.\<close>

lemma adler32_no_wrap:
  assumes "adler32_inv a b"
  shows "unat (a + ucast (x :: byte)) = unat a + unat x"
    and "unat (b + (a + ucast x)) = unat b + unat a + unat x"
proof -
  have x: "unat x < 256" by (rule unat_byte_less)
  have u: "unat (ucast x :: uint32) = unat x" by (simp add: unat_ucast_up)
  have s: "unat a + unat b + 255 \<le> 0xffffffff" using assms by (simp add: adler32_inv_def)
  have "unat a + unat (ucast x :: uint32) < 2 ^ LENGTH(32)" using s x u by simp
  from unat_add_no_wrap [OF this]
  show *: "unat (a + ucast x) = unat a + unat x" by (simp only: u)
  have "unat b + unat (a + ucast x) < 2 ^ LENGTH(32)" unfolding * using s x by simp
  from unat_add_no_wrap [OF this]
  show "unat (b + (a + ucast x)) = unat b + unat a + unat x" by (simp only: * add.assoc)
qed

lemma adler32_step:
  assumes "adler32_rep a b s1 s2"
    and a': "a' = a + ucast (x :: byte)" and b': "b' = b + a'"
    and t1: "t1 = (s1 + unat x) mod 65521" and t2: "t2 = (s2 + t1) mod 65521"
  shows "b' > (0xffffffff - 255) div 2 \<Longrightarrow> adler32_rep (a' mod adler32_mod) (b' mod adler32_mod) t1 t2"
    and "\<not> b' > (0xffffffff - 255) div 2 \<Longrightarrow> adler32_rep a' b' t1 t2"
proof -
  have inv: "adler32_inv a b" and s: "unat a mod 65521 = s1" "unat b mod 65521 = s2"
    using assms(1) by (simp_all add: adler32_rep_def)
  have ua: "unat a' = unat a + unat x" and ub: "unat b' = unat b + unat a + unat x"
    using adler32_no_wrap [OF inv, of x] by (simp_all add: a' b')
  have m1: "unat a' mod 65521 = t1"
    using s(1) by (auto simp: ua t1 mod_add_left_eq)
  have m2: "unat b' mod 65521 = t2"
    using mod_add_eq [of "unat b" 65521 "unat a'"] s(2) m1 by (simp add: ub ua t2 add.assoc)
  note m = m1 m2
  have c: "b' > (0xffffffff - 255) div 2 \<longleftrightarrow> unat b' > 2147483520"
    by (simp add: word_less_nat_alt)
  have um: "unat (w mod adler32_mod) = unat w mod 65521" for w
    by (simp add: adler32_mod_def unat_mod)
  have lt: "unat a' mod 65521 < 65521" "unat b' mod 65521 < 65521" by simp_all
  show "adler32_rep (a' mod adler32_mod) (b' mod adler32_mod) t1 t2"
    using m lt unfolding adler32_rep_def adler32_inv_def um by simp
  show "adler32_rep a' b' t1 t2" if "\<not> b' > (0xffffffff - 255) div 2"
  proof -
    have "unat b' \<le> 2147483520" using that c by simp
    moreover have "unat a' \<le> unat b'" by (simp add: ua ub)
    ultimately show ?thesis using m by (simp add: adler32_rep_def adler32_inv_def)
  qed
qed

lemma adler32_update_rep:
  "adler32_rep a b s1 s2 \<Longrightarrow>
   (case adler32_update a b p of (a', b') \<Rightarrow>
      case adler32_sums s1 s2 p of (t1, t2) \<Rightarrow> adler32_rep a' b' t1 t2)"
proof (induction p arbitrary: a b s1 s2)
  case (Cons x p)
  show ?case
    using Cons.IH adler32_step [OF Cons.prems refl refl refl refl, of x]
    by (auto simp: Let_def)
qed simp

lemma adler32_finish_rep:
  assumes "adler32_rep a b s1 s2"
  shows "unat (adler32_finish (a, b)) = s2 * 65536 + s1"
proof -
  define a' b' where "a' = (if b \<ge> adler32_mod then a mod adler32_mod else a)"
    and "b' = (if b \<ge> adler32_mod then b mod adler32_mod else b)"
  have le: "b \<ge> adler32_mod \<longleftrightarrow> unat b \<ge> 65521"
    by (simp add: adler32_mod_def word_le_nat_alt)
  have um: "unat (w mod adler32_mod) = unat w mod 65521" for w
    by (simp add: adler32_mod_def unat_mod)
  have s: "unat a' = s1" "unat b' = s2"
    using assms by (auto simp: a'_def b'_def adler32_rep_def adler32_inv_def um le)
  have "s1 < 65521" "s2 < 65521" using assms by (auto simp: adler32_rep_def)
  then have "unat (push_bit 16 b' OR a') = s2 * 65536 + s1"
    using unat_pack [of a' 16 b'] s by simp
  moreover have "adler32_finish (a, b) = push_bit 16 b' OR a'"
    by (simp add: adler32_finish_def a'_def b'_def)
  ultimately show ?thesis by simp
qed

lemma adler32_rep_init: "adler32_rep 1 0 1 0"
  by (simp add: adler32_rep_def adler32_inv_def)

lemma adler32_Checksum_ref: "unat (adler32_Checksum m) = adler32_ref m"
  using adler32_update_rep [OF adler32_rep_init, of m] adler32_finish_rep
  by (auto simp: adler32_Checksum_def adler32_ref_def split: prod.splits)

lemma adler32_inv_update:
  assumes "adler32_update 1 0 m = (a, b)"
  shows "adler32_inv a b"
  using adler32_update_rep [OF adler32_rep_init, of m] assms
  by (simp add: adler32_rep_def split: prod.splits)

subsection \<open>The package satisfies the contract of hash.Hash\<close>

lemma adler32_update_append:
  "adler32_update a b (p @ q) = (case adler32_update a b p of (a', b') \<Rightarrow> adler32_update a' b' q)"
  by (induction a b p rule: adler32_update.induct) (simp_all add: Let_def)

lemma adler32_ops_simps [simp]:
  "hash_Write adler32_ops = adler32_Write" "hash_Sum adler32_ops = adler32_Sum"
  "hash_Reset adler32_ops = adler32_Reset" "hash_Size adler32_ops = adler32_Size"
  by (simp_all add: adler32_ops_def)

interpretation adler32: hash_iface adler32_ops adler32_New
  "\<lambda>d m. adler32_update 1 0 m = (adler32_a d, adler32_b d)"
  "\<lambda>m. be_bytes 4 (adler32_Checksum m)" 4
  by unfold_locales
    (auto simp: adler32_New_def adler32_Reset_def adler32_Write_def adler32_update_append
      adler32_Sum_def adler32_Sum32_def adler32_Size_def adler32_Checksum_def be_bytes_def
      eval_nat_numeral upt_rec Let_def split: prod.splits)

lemma adler32_streams: "hash_streams adler32_ops adler32_New (\<lambda>m. be_bytes 4 (adler32_Checksum m))"
  by (rule adler32.streams)

end
