(* ===== verification/Crc.thy ===== *)
theory Crc
  imports Hash_Iface
begin

text \<open>
  Packages \<^verbatim>\<open>hash/crc32\<close> and \<^verbatim>\<open>hash/crc64\<close>. Their \<^verbatim>\<open>MakeTable\<close> and \<^verbatim>\<open>update\<close> have the same
  text at two widths; it is translated once, at any width, and used at 32 and 64 bits. The
  reference \<open>crc_serial\<close> is the shift register of a cyclic redundancy check, which takes the
  message one bit at a time and has no table.
\<close>

subsection \<open>The table and the update loop\<close>

text \<open>One pass of the inner loop of \<^verbatim>\<open>MakeTable\<close>.\<close>

definition crc_step :: "'w::len word \<Rightarrow> 'w word \<Rightarrow> 'w word" where
  "crc_step poly crc = (if crc AND 1 = 1 then drop_bit 1 crc XOR poly else drop_bit 1 crc)"

definition crc_MakeTable :: "'w::len word \<Rightarrow> 'w word list" where
  "crc_MakeTable poly = map (\<lambda>i. (crc_step poly ^^ 8) (of_nat i)) [0..<256]"

definition crc_update :: "'w::len word \<Rightarrow> 'w word list \<Rightarrow> byte list \<Rightarrow> 'w word" where
  "crc_update crc tab p =
     NOT (foldl (\<lambda>crc v. tab ! unat (ucast crc XOR v) XOR drop_bit 8 crc) (NOT crc) p)"

subsection \<open>Package crc32\<close>

definition crc32_IEEE :: uint32 where "crc32_IEEE = 0xedb88320"

definition crc32_Castagnoli :: uint32 where "crc32_Castagnoli = 0x82f63b78"

definition crc32_Koopman :: uint32 where "crc32_Koopman = 0xeb31d82e"

definition crc32_MakeTable :: "uint32 \<Rightarrow> uint32 list" where
  "crc32_MakeTable poly = crc_MakeTable poly"

definition crc32_IEEETable :: "uint32 list" where
  "crc32_IEEETable = crc32_MakeTable crc32_IEEE"

record crc32_digest =
  crc32_crc :: uint32
  crc32_tab :: "uint32 list"

definition crc32_New :: "uint32 list \<Rightarrow> crc32_digest" where
  "crc32_New tab = \<lparr>crc32_crc = 0, crc32_tab = tab\<rparr>"

definition crc32_NewIEEE :: crc32_digest where
  "crc32_NewIEEE = crc32_New crc32_IEEETable"

definition crc32_Size :: "crc32_digest \<Rightarrow> nat" where
  "crc32_Size d = 4"

definition crc32_Reset :: "crc32_digest \<Rightarrow> crc32_digest" where
  "crc32_Reset d = d\<lparr>crc32_crc := 0\<rparr>"

definition crc32_Update :: "uint32 \<Rightarrow> uint32 list \<Rightarrow> byte list \<Rightarrow> uint32" where
  "crc32_Update crc tab p = crc_update crc tab p"

definition crc32_Write :: "crc32_digest \<Rightarrow> byte list \<Rightarrow> crc32_digest \<times> nat" where
  "crc32_Write d p = (d\<lparr>crc32_crc := crc_update (crc32_crc d) (crc32_tab d) p\<rparr>, length p)"

definition crc32_Sum32 :: "crc32_digest \<Rightarrow> uint32" where
  "crc32_Sum32 d = crc32_crc d"

definition crc32_Sum :: "crc32_digest \<Rightarrow> byte list go" where
  "crc32_Sum d =
     (let s = crc32_Sum32 d in Inr [byte_at 24 s, byte_at 16 s, byte_at 8 s, byte_at 0 s])"

definition crc32_Checksum :: "byte list \<Rightarrow> uint32 list \<Rightarrow> uint32" where
  "crc32_Checksum data tab = crc_update 0 tab data"

definition crc32_ChecksumIEEE :: "byte list \<Rightarrow> uint32" where
  "crc32_ChecksumIEEE data = crc_update 0 crc32_IEEETable data"

definition crc32_ops :: "crc32_digest hash_ops" where
  "crc32_ops = \<lparr>hash_Write = crc32_Write, hash_Sum = crc32_Sum,
     hash_Reset = crc32_Reset, hash_Size = crc32_Size\<rparr>"

subsection \<open>Package crc64\<close>

definition crc64_ISO :: uint64 where "crc64_ISO = 0xD800000000000000"

definition crc64_ECMA :: uint64 where "crc64_ECMA = 0xC96C5795D7870F42"

definition crc64_MakeTable :: "uint64 \<Rightarrow> uint64 list" where
  "crc64_MakeTable poly = crc_MakeTable poly"

record crc64_digest =
  crc64_crc :: uint64
  crc64_tab :: "uint64 list"

definition crc64_New :: "uint64 list \<Rightarrow> crc64_digest" where
  "crc64_New tab = \<lparr>crc64_crc = 0, crc64_tab = tab\<rparr>"

definition crc64_Size :: "crc64_digest \<Rightarrow> nat" where
  "crc64_Size d = 8"

definition crc64_Reset :: "crc64_digest \<Rightarrow> crc64_digest" where
  "crc64_Reset d = d\<lparr>crc64_crc := 0\<rparr>"

definition crc64_Update :: "uint64 \<Rightarrow> uint64 list \<Rightarrow> byte list \<Rightarrow> uint64" where
  "crc64_Update crc tab p = crc_update crc tab p"

definition crc64_Write :: "crc64_digest \<Rightarrow> byte list \<Rightarrow> crc64_digest \<times> nat" where
  "crc64_Write d p = (d\<lparr>crc64_crc := crc_update (crc64_crc d) (crc64_tab d) p\<rparr>, length p)"

definition crc64_Sum64 :: "crc64_digest \<Rightarrow> uint64" where
  "crc64_Sum64 d = crc64_crc d"

text \<open>The first byte is shifted by 54, as in the source, where the layout asks for 56.\<close>

definition crc64_Sum :: "crc64_digest \<Rightarrow> byte list go" where
  "crc64_Sum d =
     (let s = crc64_Sum64 d
      in Inr [byte_at 54 s, byte_at 48 s, byte_at 40 s, byte_at 32 s,
              byte_at 24 s, byte_at 16 s, byte_at 8 s, byte_at 0 s])"

definition crc64_Checksum :: "byte list \<Rightarrow> uint64 list \<Rightarrow> uint64" where
  "crc64_Checksum data tab = crc_update 0 tab data"

definition crc64_ops :: "crc64_digest hash_ops" where
  "crc64_ops = \<lparr>hash_Write = crc64_Write, hash_Sum = crc64_Sum,
     hash_Reset = crc64_Reset, hash_Size = crc64_Size\<rparr>"

subsection \<open>The bit-serial register\<close>

fun crc_serial :: "'w::len word \<Rightarrow> 'w word \<Rightarrow> bool list \<Rightarrow> 'w word" where
  "crc_serial poly reg [] = reg"
| "crc_serial poly reg (b # bs) =
     crc_serial poly (drop_bit 1 reg XOR (if bit reg 0 \<noteq> b then poly else 0)) bs"

text \<open>The bits of a byte, the lowest first.\<close>

definition byte_bits :: "byte \<Rightarrow> bool list" where
  "byte_bits v = map (bit v) [0..<8]"

definition crc_ref :: "'w::len word \<Rightarrow> 'w word \<Rightarrow> byte list \<Rightarrow> 'w word" where
  "crc_ref poly crc p = NOT (crc_serial poly (NOT crc) (concat (map byte_bits p)))"

lemma crc_serial_append:
  "crc_serial poly reg (bs @ cs) = crc_serial poly (crc_serial poly reg bs) cs"
  by (induction poly reg bs rule: crc_serial.induct) simp_all

lemma crc_step_eq: "crc_step poly crc = drop_bit 1 crc XOR (if odd crc then poly else 0)"
  by (simp add: crc_step_def and_one_eq odd_iff_mod_2_eq_one)

text \<open>
  Eight steps on \<open>reg XOR u\<close> feed the low bits of \<open>u\<close> to the register and shift the rest
  of \<open>u\<close> down: the fact that makes the table work.
\<close>

lemma crc_steps_serial:
  "(crc_step poly ^^ n) (reg XOR u) = crc_serial poly reg (map (bit u) [0..<n]) XOR drop_bit n u"
proof (induction n)
  case (Suc n)
  let ?s = "crc_serial poly reg (map (bit u) [0..<n])"
  have odd: "odd (?s XOR drop_bit n u) \<longleftrightarrow> odd ?s \<noteq> bit u n"
    by (simp add: even_xor_iff bit_iff_odd_drop_bit)
  have drop: "drop_bit 1 (?s XOR drop_bit n u) = drop_bit 1 ?s XOR drop_bit (Suc n) u"
    by (simp add: drop_bit_xor)
  have "(crc_step poly ^^ Suc n) (reg XOR u) = crc_step poly (?s XOR drop_bit n u)"
    by (simp add: Suc.IH)
  also have "\<dots> = drop_bit 1 ?s XOR drop_bit (Suc n) u XOR (if odd ?s \<noteq> bit u n then poly else 0)"
    by (simp only: crc_step_eq odd drop xor.assoc)
  also have "\<dots> = crc_serial poly reg (map (bit u) [0..<Suc n]) XOR drop_bit (Suc n) u"
    by (simp add: crc_serial_append bit_0 ac_simps)
  finally show ?case .
qed simp

lemma drop_bit_ucast_byte: "drop_bit 8 (ucast (v :: byte) :: 'w::len word) = 0"
  by (rule bit_word_eqI) (auto simp: bit_simps dest: bit_imp_le_length)

text \<open>The table entry of the low byte, against eight steps on the whole register.\<close>

lemma crc_table_step:
  fixes w :: "'w::len word"
  assumes "8 \<le> LENGTH('w)"
  shows "(crc_step poly ^^ 8) w = crc_MakeTable poly ! unat (ucast w :: byte) XOR drop_bit 8 w"
proof -
  let ?low = "ucast w :: byte"
  have "crc_MakeTable poly ! unat ?low = (crc_step poly ^^ 8) (of_nat (unat ?low))"
    using unat_byte_less [of ?low] by (simp add: crc_MakeTable_def)
  also have "of_nat (unat ?low) = (ucast ?low :: 'w word)"
    by simp
  finally have tab: "crc_MakeTable poly ! unat ?low = (crc_step poly ^^ 8) (ucast ?low)" .
  have bits: "map (bit (ucast ?low :: 'w word)) [0..<8] = map (bit w) [0..<8]"
    using assms by (auto simp: bit_simps)
  show ?thesis
    using crc_steps_serial [where reg = 0 and u = w and n = 8 and poly = poly]
      crc_steps_serial [where reg = 0 and u = "ucast ?low" and n = 8 and poly = poly]
    unfolding tab bits by (simp add: drop_bit_ucast_byte)
qed

lemma crc_byte:
  fixes reg :: "'w::len word"
  assumes "8 \<le> LENGTH('w)"
  shows "crc_MakeTable poly ! unat (ucast reg XOR v :: byte) XOR drop_bit 8 reg =
    crc_serial poly reg (byte_bits v)"
proof -
  have low: "ucast (reg XOR ucast v) = ucast reg XOR v"
    using assms by (intro bit_word_eqI) (auto simp: bit_simps)
  have bits: "map (bit (ucast v :: 'w word)) [0..<8] = byte_bits v"
    using assms by (auto simp: byte_bits_def bit_simps)
  have "drop_bit 8 (reg XOR ucast v) = drop_bit 8 reg"
    by (simp add: drop_bit_xor drop_bit_ucast_byte)
  then show ?thesis
    using crc_table_step [OF assms, of poly "reg XOR ucast v"] low
      crc_steps_serial [where reg = reg and u = "ucast v" and n = 8 and poly = poly] bits
    by (simp add: drop_bit_ucast_byte)
qed

lemma crc_update_ref:
  fixes poly :: "'w::len word"
  assumes "8 \<le> LENGTH('w)"
  shows "crc_update crc (crc_MakeTable poly) p = crc_ref poly crc p"
proof -
  have "foldl (\<lambda>crc v. crc_MakeTable poly ! unat (ucast crc XOR v :: byte) XOR drop_bit 8 crc) reg p =
      crc_serial poly reg (concat (map byte_bits p))" for reg
    by (induction p arbitrary: reg) (simp_all add: crc_serial_append crc_byte [OF assms])
  then show ?thesis by (simp add: crc_update_def crc_ref_def)
qed

subsection \<open>The packages satisfy the contract of hash.Hash\<close>

lemma crc_update_append: "crc_update (crc_update crc tab p) tab q = crc_update crc tab (p @ q)"
  by (simp add: crc_update_def)

lemma crc_ops_simps [simp]:
  "hash_Write crc32_ops = crc32_Write" "hash_Sum crc32_ops = crc32_Sum"
  "hash_Reset crc32_ops = crc32_Reset" "hash_Size crc32_ops = crc32_Size"
  "hash_Write crc64_ops = crc64_Write" "hash_Sum crc64_ops = crc64_Sum"
  "hash_Reset crc64_ops = crc64_Reset" "hash_Size crc64_ops = crc64_Size"
  by (simp_all add: crc32_ops_def crc64_ops_def)

interpretation crc32: hash_iface crc32_ops "crc32_New tab"
  "\<lambda>d m. crc32_tab d = tab \<and> crc32_crc d = crc_update 0 tab m"
  "\<lambda>m. be_bytes 4 (crc32_Checksum m tab)" 4 for tab
  by unfold_locales
    (auto simp: crc32_New_def crc32_Reset_def crc32_Write_def crc_update_append crc32_Sum_def
      crc32_Sum32_def crc32_Size_def crc32_Checksum_def be_bytes_def eval_nat_numeral upt_rec
      crc_update_def Let_def)

text \<open>
  The contract holds of \<^verbatim>\<open>crc64\<close> too, for the bytes its \<^verbatim>\<open>Sum\<close> returns: it is a function
  of the message of the right length, though not the checksum in big-endian order.
\<close>

definition crc64_sum_bytes :: "uint64 \<Rightarrow> byte list" where
  "crc64_sum_bytes s = byte_at 54 s # tl (be_bytes 8 s)"

interpretation crc64: hash_iface crc64_ops "crc64_New tab"
  "\<lambda>d m. crc64_tab d = tab \<and> crc64_crc d = crc_update 0 tab m"
  "\<lambda>m. crc64_sum_bytes (crc64_Checksum m tab)" 8 for tab
  by unfold_locales
    (auto simp: crc64_New_def crc64_Reset_def crc64_Write_def crc_update_append crc64_Sum_def
      crc64_Sum64_def crc64_Size_def crc64_Checksum_def be_bytes_def eval_nat_numeral upt_rec
      crc64_sum_bytes_def crc_update_def Let_def)

end
