(* ===== verification/Hmac.thy ===== *)
theory Hmac
  imports Md5 Sha1 Adler32
begin

text \<open>
  Package \<^verbatim>\<open>crypto/hmac\<close>: a keyed hash built on any value of \<^verbatim>\<open>hash.Hash\<close>. The operations
  take the method table of the inner hash as an argument, as the struct holds an interface
  value. The locale \<open>hmac_hash\<close> extends the contract of \<^verbatim>\<open>hash.Hash\<close> by a bound on the
  size, proves the formula of FIPS 198 once, and is interpreted on the hashes the package
  offers.
\<close>

subsection \<open>The code\<close>

definition hmac_padSize :: nat where "hmac_padSize = 64"

record 'd hmac =
  hmac_size :: nat
  hmac_key :: "byte list"
  hmac_tmp :: "byte list"
  hmac_inner :: 'd

text \<open>The two loops of \<^verbatim>\<open>tmpPad\<close>; \<open>tmp\<close> has at least 64 bytes.\<close>

definition hmac_tmpPad :: "'d hmac \<Rightarrow> byte \<Rightarrow> 'd hmac" where
  "hmac_tmpPad h x =
     (let tmp = copy_at (hmac_tmp h) 0 (map (\<lambda>k. x XOR k) (hmac_key h));
          tmp = copy_at tmp (length (hmac_key h)) (replicate (hmac_padSize - length (hmac_key h)) x)
      in h\<lparr>hmac_tmp := tmp\<rparr>)"

text \<open>\<^verbatim>\<open>Sum\<close> changes the struct; storing a byte past the end of \<open>tmp\<close> panics.\<close>

definition hmac_Sum :: "'d hash_ops \<Rightarrow> 'd hmac \<Rightarrow> ('d hmac \<times> byte list) go" where
  "hmac_Sum ops h =
     (let h = hmac_tmpPad h 0x5c
      in case hash_Sum ops (hmac_inner h) of
           Inl e \<Rightarrow> Inl e
         | Inr s \<Rightarrow>
             if hmac_padSize + length s > length (hmac_tmp h) then Inl (Panic ''index out of range'')
             else
               let h = h\<lparr>hmac_tmp := copy_at (hmac_tmp h) hmac_padSize s\<rparr>;
                   inner = hash_Reset ops (hmac_inner h);
                   inner = fst (hash_Write ops inner (hmac_tmp h));
                   h = h\<lparr>hmac_inner := inner\<rparr>
               in case hash_Sum ops inner of Inl e \<Rightarrow> Inl e | Inr s \<Rightarrow> Inr (h, s))"

definition hmac_Write :: "'d hash_ops \<Rightarrow> 'd hmac \<Rightarrow> byte list \<Rightarrow> 'd hmac \<times> nat" where
  "hmac_Write ops h p =
     (let (inner, n) = hash_Write ops (hmac_inner h) p in (h\<lparr>hmac_inner := inner\<rparr>, n))"

definition hmac_Size :: "'d hmac \<Rightarrow> nat" where
  "hmac_Size h = hmac_size h"

definition hmac_Reset :: "'d hash_ops \<Rightarrow> 'd hmac \<Rightarrow> 'd hmac" where
  "hmac_Reset ops h =
     (let h = h\<lparr>hmac_inner := hash_Reset ops (hmac_inner h)\<rparr>;
          h = hmac_tmpPad h 0x36
      in h\<lparr>hmac_inner := fst (hash_Write ops (hmac_inner h) (take hmac_padSize (hmac_tmp h)))\<rparr>)"

definition hmac_New :: "'d hash_ops \<Rightarrow> 'd \<Rightarrow> byte list \<Rightarrow> 'd hmac go" where
  "hmac_New ops h key =
     (case (if length key > hmac_padSize
            then let h = fst (hash_Write ops h key)
                 in case hash_Sum ops h of Inl e \<Rightarrow> Inl e | Inr s \<Rightarrow> Inr (h, s)
            else Inr (h, key)) of
        Inl e \<Rightarrow> Inl e
      | Inr (h, key) \<Rightarrow>
          Inr (hmac_Reset ops
            \<lparr>hmac_size = hash_Size ops h, hmac_key = key,
              hmac_tmp = replicate (hmac_padSize + hash_Size ops h) 0, hmac_inner = h\<rparr>))"

definition hmac_NewMD5 :: "byte list \<Rightarrow> uint32 digest hmac go" where
  "hmac_NewMD5 key = hmac_New md5_ops md5_New key"

definition hmac_NewSHA1 :: "byte list \<Rightarrow> uint32 digest hmac go" where
  "hmac_NewSHA1 key = hmac_New sha1_ops sha1_New key"

text \<open>A sequence of calls of \<^verbatim>\<open>Write\<close>.\<close>

definition hmac_Writes :: "'d hash_ops \<Rightarrow> 'd hmac \<Rightarrow> byte list list \<Rightarrow> 'd hmac" where
  "hmac_Writes ops = foldl (\<lambda>h p. fst (hmac_Write ops h p))"

subsection \<open>The formula of FIPS 198\<close>

text \<open>The key zero padded to 64 bytes, then \<^verbatim>\<open>H([key ^ opad] H([key ^ ipad] text))\<close>.\<close>

definition hmac_block :: "byte list \<Rightarrow> byte list" where
  "hmac_block key = key @ replicate (64 - length key) 0"

definition hmac_ref :: "(byte list \<Rightarrow> byte list) \<Rightarrow> byte list \<Rightarrow> byte list \<Rightarrow> byte list" where
  "hmac_ref H key m =
     (let k = hmac_block (if length key > 64 then H key else key)
      in H (map (\<lambda>b. 0x5c XOR b) k @ H (map (\<lambda>b. 0x36 XOR b) k @ m)))"

lemma hmac_tmpPad_tmp:
  assumes "length (hmac_key h) \<le> 64" and "64 \<le> length (hmac_tmp h)"
  shows "hmac_tmp (hmac_tmpPad h x) =
    map (\<lambda>b. x XOR b) (hmac_block (hmac_key h)) @ drop 64 (hmac_tmp h)"
  using assms by (simp add: hmac_tmpPad_def hmac_padSize_def copy_at_eq hmac_block_def Let_def)

lemma hmac_tmpPad_frame [simp]:
  "hmac_key (hmac_tmpPad h x) = hmac_key h" "hmac_inner (hmac_tmpPad h x) = hmac_inner h"
  "hmac_size (hmac_tmpPad h x) = hmac_size h" "length (hmac_tmp (hmac_tmpPad h x)) = length (hmac_tmp h)"
  by (simp_all add: hmac_tmpPad_def Let_def)

lemma hmac_Write_frame [simp]:
  "hmac_key (fst (hmac_Write ops h p)) = hmac_key h" "hmac_tmp (fst (hmac_Write ops h p)) = hmac_tmp h"
  "hmac_size (fst (hmac_Write ops h p)) = hmac_size h"
  "hmac_inner (fst (hmac_Write ops h p)) = fst (hash_Write ops (hmac_inner h) p)"
  by (simp_all add: hmac_Write_def split: prod.splits)

lemma hmac_Writes_frame:
  "hmac_key (hmac_Writes ops h ps) = hmac_key h" "hmac_tmp (hmac_Writes ops h ps) = hmac_tmp h"
  "hmac_size (hmac_Writes ops h ps) = hmac_size h"
  "hmac_inner (hmac_Writes ops h ps) = hash_Writes ops (hmac_inner h) ps"
  by (induction ps arbitrary: h) (simp_all add: hmac_Writes_def)

text \<open>The struct between operations, over a hash of the given size.\<close>

definition hmac_ok :: "nat \<Rightarrow> 'd hmac \<Rightarrow> byte list \<Rightarrow> bool" where
  "hmac_ok size_H h key \<longleftrightarrow>
     hmac_key h = key \<and> length key \<le> 64 \<and> length (hmac_tmp h) = 64 + size_H \<and> hmac_size h = size_H"

lemma length_hmac_block: "length key \<le> 64 \<Longrightarrow> length (hmac_block key) = 64"
  by (simp add: hmac_block_def)

locale hmac_hash = hash_iface ops New rep H size_H
  for ops :: "'d hash_ops" and New rep H size_H +
  assumes size_H_le: "size_H \<le> 64"
begin

lemma Reset_ok:
  assumes "hmac_ok size_H h key" and "rep (hmac_inner h) m"
  shows "hmac_ok size_H (hmac_Reset ops h) key"
    and "rep (hmac_inner (hmac_Reset ops h)) (map (\<lambda>b. 0x36 XOR b) (hmac_block key))"
proof -
  let ?h = "hmac_tmpPad (h\<lparr>hmac_inner := hash_Reset ops (hmac_inner h)\<rparr>) 0x36"
  have "hmac_tmp ?h = map (\<lambda>b. 0x36 XOR b) (hmac_block key) @ drop 64 (hmac_tmp h)"
    using assms(1) by (subst hmac_tmpPad_tmp) (simp_all add: hmac_ok_def)
  then have "take 64 (hmac_tmp ?h) = map (\<lambda>b. 0x36 XOR b) (hmac_block key)"
    using assms(1) by (simp add: length_hmac_block hmac_ok_def)
  then show "rep (hmac_inner (hmac_Reset ops h)) (map (\<lambda>b. 0x36 XOR b) (hmac_block key))"
    using rep_Write [OF rep_Reset [OF assms(2)]] by (simp add: hmac_Reset_def hmac_padSize_def Let_def)
  show "hmac_ok size_H (hmac_Reset ops h) key"
    using assms(1) by (simp add: hmac_ok_def hmac_Reset_def Let_def)
qed

lemma Sum_ok:
  assumes ok: "hmac_ok size_H h key" and rep: "rep (hmac_inner h) m"
  shows "\<exists>h'. hmac_Sum ops h = Inr (h', H (map (\<lambda>b. 0x5c XOR b) (hmac_block key) @ H m)) \<and>
    hmac_ok size_H h' key \<and> rep (hmac_inner h') (map (\<lambda>b. 0x5c XOR b) (hmac_block key) @ H m)"
proof -
  let ?k = "map (\<lambda>b. 0x5c XOR b) (hmac_block key)"
  let ?h = "hmac_tmpPad h 0x5c"
  have len: "length (hmac_tmp ?h) = 64 + size_H" using ok by (simp add: hmac_ok_def)
  have "hmac_tmp ?h = ?k @ drop 64 (hmac_tmp h)"
    using ok by (subst hmac_tmpPad_tmp) (simp_all add: hmac_ok_def)
  then have tmp: "copy_at (hmac_tmp ?h) 64 (H m) = ?k @ H m"
    using ok len by (simp add: copy_at_all length_H length_hmac_block hmac_ok_def)
  let ?i = "fst (hash_Write ops (hash_Reset ops (hmac_inner h)) (?k @ H m))"
  have i: "rep ?i (?k @ H m)"
    using rep_Write [OF rep_Reset [OF rep]] by simp
  have "hmac_Sum ops h = Inr (?h\<lparr>hmac_tmp := ?k @ H m, hmac_inner := ?i\<rparr>, H (?k @ H m))"
    using rep len Sum_H [OF i]
    by (simp add: hmac_Sum_def Sum_H hmac_padSize_def Let_def length_H tmp)
  moreover have "hmac_ok size_H (?h\<lparr>hmac_tmp := ?k @ H m, hmac_inner := ?i\<rparr>) key"
    using ok by (simp add: hmac_ok_def length_hmac_block length_H)
  ultimately show ?thesis using i by (intro exI) auto
qed

lemma New_ok:
  assumes "key' = (if length key > 64 then H key else key)"
  shows "\<exists>h. hmac_New ops New key = Inr h \<and> hmac_ok size_H h key' \<and>
    rep (hmac_inner h) (map (\<lambda>b. 0x36 XOR b) (hmac_block key'))"
proof -
  have "\<exists>d m. (if length key > hmac_padSize
            then let h = fst (hash_Write ops New key)
                 in case hash_Sum ops h of Inl e \<Rightarrow> Inl e | Inr s \<Rightarrow> Inr (h, s)
            else Inr (New, key)) = (Inr (d, key') :: (_ \<times> _) go) \<and> rep d m"
    using assms rep_Write [OF rep_New, of key] rep_New
    by (auto simp: hmac_padSize_def Let_def Sum_H)
  then obtain d m where d: "rep d m"
    and eq: "(if length key > hmac_padSize
            then let h = fst (hash_Write ops New key)
                 in case hash_Sum ops h of Inl e \<Rightarrow> Inl e | Inr s \<Rightarrow> Inr (h, s)
            else Inr (New, key)) = (Inr (d, key') :: (_ \<times> _) go)" by blast
  let ?h = "\<lparr>hmac_size = hash_Size ops d, hmac_key = key',
      hmac_tmp = replicate (hmac_padSize + hash_Size ops d) 0, hmac_inner = d\<rparr>"
  have "hmac_ok size_H ?h key'" and "rep (hmac_inner ?h) m"
    using d assms size_H_le by (auto simp: hmac_ok_def Size_size hmac_padSize_def length_H)
  from Reset_ok [OF this] show ?thesis
    by (simp add: hmac_New_def eq)
qed

text \<open>
  The value of \<^verbatim>\<open>Sum\<close> after any writes, from a state that \<^verbatim>\<open>New\<close> or \<^verbatim>\<open>Reset\<close> leaves; the
  state it leaves itself can be reset, and a second \<^verbatim>\<open>Sum\<close> on it hashes the first one again.
\<close>

lemma Sum_Writes_ok:
  assumes ok: "hmac_ok size_H h key" and rep: "rep (hmac_inner h) (map (\<lambda>b. 0x36 XOR b) (hmac_block key))"
    and s: "s = H (map (\<lambda>b. 0x5c XOR b) (hmac_block key) @
                  H (map (\<lambda>b. 0x36 XOR b) (hmac_block key) @ concat ps))"
  shows "\<exists>h'. hmac_Sum ops (hmac_Writes ops h ps) = Inr (h', s) \<and>
     hmac_ok size_H (hmac_Reset ops h') key \<and>
     rep (hmac_inner (hmac_Reset ops h')) (map (\<lambda>b. 0x36 XOR b) (hmac_block key)) \<and>
     (\<exists>h''. hmac_Sum ops h' = Inr (h'', H (map (\<lambda>b. 0x5c XOR b) (hmac_block key) @ s)))"
proof -
  have "hmac_ok size_H (hmac_Writes ops h ps) key"
    using ok by (simp add: hmac_ok_def hmac_Writes_frame)
  moreover have "rep (hmac_inner (hmac_Writes ops h ps))
      (map (\<lambda>b. 0x36 XOR b) (hmac_block key) @ concat ps)"
    unfolding hmac_Writes_frame by (rule rep_Writes [OF rep])
  ultimately obtain h' where h': "hmac_Sum ops (hmac_Writes ops h ps) = Inr (h', s)"
      "hmac_ok size_H h' key" "rep (hmac_inner h') (map (\<lambda>b. 0x5c XOR b) (hmac_block key) @
                  H (map (\<lambda>b. 0x36 XOR b) (hmac_block key) @ concat ps))"
    using Sum_ok s by blast
  from Sum_ok [OF h'(2,3)] h' s Reset_ok [OF h'(2,3)] show ?thesis by blast
qed

lemma hmac_correct:
  "\<exists>h h'. hmac_New ops New key = Inr h \<and>
     hmac_Sum ops (hmac_Writes ops h ps) = Inr (h', hmac_ref H key (concat ps)) \<and>
     (\<exists>h''. hmac_Sum ops (hmac_Writes ops (hmac_Reset ops h') qs) = Inr (h'', hmac_ref H key (concat qs)))"
proof -
  define k where "k = (if length key > 64 then H key else key)"
  obtain h where h: "hmac_New ops New key = Inr h" "hmac_ok size_H h k"
      "rep (hmac_inner h) (map (\<lambda>b. 0x36 XOR b) (hmac_block k))"
    using New_ok [OF k_def] by blast
  have ref: "hmac_ref H key m = H (map (\<lambda>b. 0x5c XOR b) (hmac_block k) @
      H (map (\<lambda>b. 0x36 XOR b) (hmac_block k) @ m))" for m
    by (simp add: hmac_ref_def k_def Let_def)
  obtain h' where h': "hmac_Sum ops (hmac_Writes ops h ps) = Inr (h', hmac_ref H key (concat ps))"
      "hmac_ok size_H (hmac_Reset ops h') k"
      "rep (hmac_inner (hmac_Reset ops h')) (map (\<lambda>b. 0x36 XOR b) (hmac_block k))"
    using Sum_Writes_ok [OF h(2,3) ref] by blast
  obtain h'' where "hmac_Sum ops (hmac_Writes ops (hmac_Reset ops h') qs) =
      Inr (h'', hmac_ref H key (concat qs))"
    using Sum_Writes_ok [OF h'(2,3) ref] by blast
  with h(1) h'(1) show ?thesis by blast
qed

end

subsection \<open>The hashes of the package\<close>

interpretation hmac_md5: hmac_hash md5_ops md5_New
  "\<lambda>d m. digest_rep 64 md5_compress md5_init d m \<and> digest.more d = ()"
  "\<lambda>m. concat (map (le_bytes 4) (md_state 64 56 (le_bytes 8) md5_compress md5_init m))" 16
  by unfold_locales simp

interpretation hmac_sha1: hmac_hash sha1_ops sha1_New
  "\<lambda>d m. digest_rep 64 sha1_compress sha1_init d m \<and> digest.more d = ()"
  "\<lambda>m. concat (map (be_bytes 4) (md_state 64 56 (be_bytes 8) sha1_compress sha1_init m))" 20
  by unfold_locales simp

interpretation hmac_adler32: hmac_hash adler32_ops adler32_New
  "\<lambda>d m. adler32_update 1 0 m = (adler32_a d, adler32_b d)"
  "\<lambda>m. be_bytes 4 (adler32_Checksum m)" 4
  by unfold_locales simp

text \<open>Two calls of \<^verbatim>\<open>Sum\<close> in a row, on a struct with the empty key.\<close>

lemma hmac_Sum_twice_adler32:
  "(case hmac_New adler32_ops adler32_New [] of
      Inl e \<Rightarrow> False
    | Inr h \<Rightarrow> case hmac_Sum adler32_ops h of
        Inl e \<Rightarrow> False
      | Inr (h1, s1) \<Rightarrow> case hmac_Sum adler32_ops h1 of Inl e \<Rightarrow> False | Inr (h2, s2) \<Rightarrow> s1 \<noteq> s2)"
  by code_simp

end
