(* ===== verification/Sort.thy ===== *)
theory Sort
  imports Go_Prelude "HOL-Library.Multiset" "HOL-Library.List_Lexorder" "HOL-Library.Char_ord"
begin

text \<open>
  Package \<^verbatim>\<open>sort\<close>: insertion sort, the three-way quicksort of Bentley and McIlroy, and
  \<^verbatim>\<open>IsSorted\<close>, over any collection with the methods of \<^verbatim>\<open>sort.Interface\<close>. A value of the
  interface is a state with its method table \<open>sort_ops\<close>. The loops are recursive functions;
  each terminates whatever the methods do, because its bounds move by the same amounts for
  any answer of \<^verbatim>\<open>Less\<close>.

  The locale \<open>sort_iface\<close> is the contract of the interface: the state holds a list, \<^verbatim>\<open>Less\<close>
  compares its elements by a strict weak order, \<^verbatim>\<open>Swap\<close> exchanges two of them. Indices are
  natural numbers: the code never forms a negative index.
\<close>

record 's sort_ops =
  sort_Len :: "'s \<Rightarrow> nat"
  sort_Less :: "'s \<Rightarrow> nat \<Rightarrow> nat \<Rightarrow> bool"
  sort_Swap :: "'s \<Rightarrow> nat \<Rightarrow> nat \<Rightarrow> 's"

subsection \<open>The code\<close>

definition sort_min :: "nat \<Rightarrow> nat \<Rightarrow> nat" where
  "sort_min a b = (if a < b then a else b)"

text \<open>The inner loop of \<^verbatim>\<open>insertionSort\<close>, from \<open>j\<close> down to \<open>a\<close>, and the outer one.\<close>

fun insertion_loop :: "'s sort_ops \<Rightarrow> nat \<Rightarrow> nat \<Rightarrow> 's \<Rightarrow> 's" where
  "insertion_loop ops a j s =
     (if a < j \<and> sort_Less ops s j (j - 1)
      then insertion_loop ops a (j - 1) (sort_Swap ops s j (j - 1))
      else s)"

declare insertion_loop.simps [simp del]

definition insertionSort :: "'s sort_ops \<Rightarrow> nat \<Rightarrow> nat \<Rightarrow> 's \<Rightarrow> 's" where
  "insertionSort ops a b s = fold (insertion_loop ops a) [a + 1..<b] s"

definition medianOfThree :: "'s sort_ops \<Rightarrow> nat \<Rightarrow> nat \<Rightarrow> nat \<Rightarrow> 's \<Rightarrow> 's" where
  "medianOfThree ops a b c s =
     (let m0 = b; m1 = a; m2 = c;
          s = (if sort_Less ops s m1 m0 then sort_Swap ops s m1 m0 else s);
          s = (if sort_Less ops s m2 m1 then sort_Swap ops s m2 m1 else s);
          s = (if sort_Less ops s m1 m0 then sort_Swap ops s m1 m0 else s)
      in s)"

definition swapRange :: "'s sort_ops \<Rightarrow> nat \<Rightarrow> nat \<Rightarrow> nat \<Rightarrow> 's \<Rightarrow> 's" where
  "swapRange ops a b n s = fold (\<lambda>i s. sort_Swap ops s (a + i) (b + i)) [0..<n] s"

text \<open>The choice of the pivot at the start of \<^verbatim>\<open>doPivot\<close>.\<close>

definition choosePivot :: "'s sort_ops \<Rightarrow> nat \<Rightarrow> nat \<Rightarrow> 's \<Rightarrow> 's" where
  "choosePivot ops lo hi s =
     (let m = (lo + hi) div 2;
          s = (if hi - lo > 40
               then let d = (hi - lo) div 8;
                        s = medianOfThree ops lo (lo + d) (lo + 2 * d) s;
                        s = medianOfThree ops m (m - d) (m + d) s
                    in medianOfThree ops (hi - 1) (hi - 1 - d) (hi - 1 - 2 * d) s
               else s)
      in medianOfThree ops lo m (hi - 1) s)"

text \<open>The loop \<^verbatim>\<open>for b < c\<close> of \<^verbatim>\<open>doPivot\<close>, with its variables \<open>a, b, c, d\<close>.\<close>

function pivot_loop ::
  "'s sort_ops \<Rightarrow> nat \<Rightarrow> 's \<Rightarrow> nat \<Rightarrow> nat \<Rightarrow> nat \<Rightarrow> nat \<Rightarrow> 's \<times> nat \<times> nat \<times> nat \<times> nat" where
  "pivot_loop ops pivot s a b c d =
     (if b < c then
        if sort_Less ops s b pivot then pivot_loop ops pivot s a (b + 1) c d
        else if \<not> sort_Less ops s pivot b then
          pivot_loop ops pivot (sort_Swap ops s a b) (a + 1) (b + 1) c d
        else if sort_Less ops s pivot (c - 1) then pivot_loop ops pivot s a b (c - 1) d
        else if \<not> sort_Less ops s (c - 1) pivot then
          pivot_loop ops pivot (sort_Swap ops s (c - 1) (d - 1)) a b (c - 1) (d - 1)
        else pivot_loop ops pivot (sort_Swap ops s b (c - 1)) a (b + 1) (c - 1) d
      else (s, a, b, c, d))"
  by pat_completeness auto
termination
  by (relation "measure (\<lambda>(ops, pivot, s, a, b, c, d). c - b)") auto

declare pivot_loop.simps [simp del]

definition doPivot :: "'s sort_ops \<Rightarrow> nat \<Rightarrow> nat \<Rightarrow> 's \<Rightarrow> 's \<times> nat \<times> nat" where
  "doPivot ops lo hi s =
     (let s = choosePivot ops lo hi s;
          pivot = lo;
          (s, a, b, c, d) = pivot_loop ops pivot s (lo + 1) (lo + 1) hi hi;
          n = sort_min (b - a) (a - lo);
          s = swapRange ops lo (b - n) n s;
          n = sort_min (hi - d) (d - c);
          s = swapRange ops c (hi - n) n s
      in (s, lo + b - a, hi - (d - c)))"

text \<open>The variables of the loop stay in order, whatever \<^verbatim>\<open>Less\<close> answers.\<close>

lemma pivot_loop_bounds:
  assumes "pivot_loop ops pivot s a b c d = (s', a', b', c', d')" and "a \<le> b" and "b \<le> c" and "c \<le> d"
  shows "a \<le> a' \<and> a' \<le> b' \<and> b' = c' \<and> c' \<le> d' \<and> d' \<le> d"
  using assms
proof (induction ops pivot s a b c d rule: pivot_loop.induct)
  case (1 ops pivot s a b c d)
  note step = pivot_loop.simps [of ops pivot s a b c d]
  consider "c \<le> b"
    | "b < c" "sort_Less ops s b pivot"
    | "b < c" "\<not> sort_Less ops s b pivot" "\<not> sort_Less ops s pivot b"
    | "b < c" "\<not> sort_Less ops s b pivot" "sort_Less ops s pivot b" "sort_Less ops s pivot (c - 1)"
    | "b < c" "\<not> sort_Less ops s b pivot" "sort_Less ops s pivot b" "\<not> sort_Less ops s pivot (c - 1)"
        "\<not> sort_Less ops s (c - 1) pivot"
    | "b < c" "\<not> sort_Less ops s b pivot" "sort_Less ops s pivot b" "\<not> sort_Less ops s pivot (c - 1)"
        "sort_Less ops s (c - 1) pivot"
    by linarith
  then show ?case
  proof cases
    case 1
    with "1.prems" show ?thesis by (simp add: step)
  next
    case 2
    from "1.IH"(1) [OF this] "1.prems" 2 show ?thesis by (simp add: step)
  next
    case 3
    from "1.IH"(2) [OF this] "1.prems" 3 show ?thesis by (simp add: step)
  next
    case 4
    moreover have "b \<le> c - 1" "c - 1 \<le> d" using "1.prems" 4 by simp_all
    ultimately show ?thesis using "1.IH"(3) [OF 4(1,2) _ 4(4)] "1.prems" by (simp add: step)
  next
    case 5
    moreover have "b \<le> c - 1" "c - 1 \<le> d - 1" using "1.prems" 5 by simp_all
    ultimately show ?thesis using "1.IH"(4) [OF 5(1,2) _ 5(4,5)] "1.prems" by (simp add: step) linarith
  next
    case 6
    then have "b \<noteq> c - 1" by metis
    then have "b + 1 \<le> c - 1" "c - 1 \<le> d" using "1.prems" 6 by simp_all
    with "1.IH"(5) [OF 6(1,2) _ 6(4)] "1.prems" 6 show ?thesis by (simp add: step)
  qed
qed

lemma doPivot_bounds:
  assumes "doPivot ops lo hi s = (s', mlo, mhi)" and "lo < hi"
  shows "lo \<le> mlo" and "mlo < hi" and "lo < mhi" and "mhi \<le> hi"
proof -
  obtain t a b c d
    where p: "pivot_loop ops lo (choosePivot ops lo hi s) (lo + 1) (lo + 1) hi hi = (t, a, b, c, d)"
    by (metis prod_cases5)
  have "lo + 1 \<le> a \<and> a \<le> b \<and> b = c \<and> c \<le> d \<and> d \<le> hi"
    using pivot_loop_bounds [OF p] assms(2) by simp
  moreover have "mlo = lo + b - a" and "mhi = hi - (d - c)"
    using assms(1) p by (auto simp: doPivot_def Let_def)
  ultimately show "lo \<le> mlo" and "mlo < hi" and "lo < mhi" and "mhi \<le> hi" by auto
qed

function quickSort :: "'s sort_ops \<Rightarrow> nat \<Rightarrow> nat \<Rightarrow> 's \<Rightarrow> 's" where
  "quickSort ops a b s =
     (if b - a > 7 then
        let (s, mlo, mhi) = doPivot ops a b s;
            s = quickSort ops a mlo s
        in quickSort ops mhi b s
      else if b - a > 1 then insertionSort ops a b s
      else s)"
  by pat_completeness auto
termination
proof (relation "measure (\<lambda>(ops, a, b, s). b - a)")
  fix ops a b and s :: 's and x xa y xb xc
  assume "b - a > 7" and "x = doPivot ops a b s" and "(xa, y) = x" and "(xb, xc) = y"
  then have "doPivot ops a b s = (xa, xb, xc)" and "a < b" by auto
  from doPivot_bounds [OF this]
  show "((ops, a, xb, xa), ops, a, b, s) \<in> measure (\<lambda>(ops, a, b, s). b - a)"
    by (simp add: \<open>a < b\<close> diff_less_mono)
next
  fix ops a b and s :: 's and x xa y xb xc xd
  assume "b - a > 7" and "x = doPivot ops a b s" and "(xa, y) = x" and "(xb, xc) = y"
  then have "doPivot ops a b s = (xa, xb, xc)" and "a < b" by auto
  from doPivot_bounds [OF this]
  show "((ops, xc, b, xd), ops, a, b, s) \<in> measure (\<lambda>(ops, a, b, s). b - a)"
    by simp
qed simp

declare quickSort.simps [simp del]

definition sort_Sort :: "'s sort_ops \<Rightarrow> 's \<Rightarrow> 's" where
  "sort_Sort ops data = quickSort ops 0 (sort_Len ops data) data"

text \<open>The loop of \<^verbatim>\<open>IsSorted\<close>, from \<open>i\<close> down to 1.\<close>

fun isSorted_loop :: "'s sort_ops \<Rightarrow> 's \<Rightarrow> nat \<Rightarrow> bool" where
  "isSorted_loop ops data i =
     (if 0 < i then (if sort_Less ops data i (i - 1) then False else isSorted_loop ops data (i - 1))
      else True)"

declare isSorted_loop.simps [simp del]

definition sort_IsSorted :: "'s sort_ops \<Rightarrow> 's \<Rightarrow> bool" where
  "sort_IsSorted ops data = isSorted_loop ops data (sort_Len ops data - 1)"

subsection \<open>The convenience types\<close>

text \<open>\<^verbatim>\<open>IntArray\<close> and \<^verbatim>\<open>StringArray\<close>; Go compares strings byte by byte.\<close>

definition swap_elems :: "'a list \<Rightarrow> nat \<Rightarrow> nat \<Rightarrow> 'a list" where
  "swap_elems p i j = p[i := p ! j, j := p ! i]"

definition IntArray :: "int list sort_ops" where
  "IntArray = \<lparr>sort_Len = length, sort_Less = (\<lambda>p i j. p ! i < p ! j), sort_Swap = swap_elems\<rparr>"

definition StringArray :: "string list sort_ops" where
  "StringArray = \<lparr>sort_Len = length, sort_Less = (\<lambda>p i j. p ! i < p ! j), sort_Swap = swap_elems\<rparr>"

definition SortInts :: "int list \<Rightarrow> int list" where
  "SortInts a = sort_Sort IntArray a"

definition SortStrings :: "string list \<Rightarrow> string list" where
  "SortStrings a = sort_Sort StringArray a"

definition IntsAreSorted :: "int list \<Rightarrow> bool" where
  "IntsAreSorted a = sort_IsSorted IntArray a"

definition StringsAreSorted :: "string list \<Rightarrow> bool" where
  "StringsAreSorted a = sort_IsSorted StringArray a"

subsection \<open>Ranges of a list\<close>

text \<open>
  \<open>perm_range a b xs ys\<close>: \<open>ys\<close> is a rearrangement of \<open>xs\<close> that moves nothing outside
  the indices \<open>a \<le> i < b\<close>.
\<close>

definition perm_range :: "nat \<Rightarrow> nat \<Rightarrow> 'a list \<Rightarrow> 'a list \<Rightarrow> bool" where
  "perm_range a b xs ys \<longleftrightarrow>
     length ys = length xs \<and> mset ys = mset xs \<and> (\<forall>i < length xs. i < a \<or> b \<le> i \<longrightarrow> ys ! i = xs ! i)"

definition sorted_range :: "('a \<Rightarrow> 'a \<Rightarrow> bool) \<Rightarrow> nat \<Rightarrow> nat \<Rightarrow> 'a list \<Rightarrow> bool" where
  "sorted_range lt a b xs \<longleftrightarrow> (\<forall>i j. a \<le> i \<and> i < j \<and> j < b \<longrightarrow> \<not> lt (xs ! j) (xs ! i))"

lemma sorted_range_short: "b \<le> Suc a \<Longrightarrow> sorted_range lt a b xs"
  by (auto simp: sorted_range_def)

lemma perm_range_refl [simp, intro]: "perm_range a b xs xs"
  by (simp add: perm_range_def)

lemma perm_range_trans [trans]: "perm_range a b xs ys \<Longrightarrow> perm_range a b ys zs \<Longrightarrow> perm_range a b xs zs"
  by (simp add: perm_range_def)

lemma perm_range_widen: "perm_range a' b' xs ys \<Longrightarrow> a \<le> a' \<Longrightarrow> b' \<le> b \<Longrightarrow> perm_range a b xs ys"
  by (auto simp: perm_range_def)

lemma perm_range_length: "perm_range a b xs ys \<Longrightarrow> length ys = length xs"
  by (simp add: perm_range_def)

lemma perm_range_outside: "perm_range a b xs ys \<Longrightarrow> i < length xs \<Longrightarrow> i < a \<or> b \<le> i \<Longrightarrow> ys ! i = xs ! i"
  by (auto simp: perm_range_def)

lemma length_swap_elems [simp]: "length (swap_elems xs i j) = length xs"
  by (simp add: swap_elems_def)

lemma nth_swap_elems:
  "i < length xs \<Longrightarrow> j < length xs \<Longrightarrow>
   swap_elems xs i j ! k = (if k = i then xs ! j else if k = j then xs ! i else xs ! k)"
  by (auto simp: swap_elems_def nth_list_update)

lemma perm_range_swap:
  assumes "a \<le> i" "i < b" "a \<le> j" "j < b" "b \<le> length xs"
  shows "perm_range a b xs (swap_elems xs i j)"
proof -
  have "mset (swap_elems xs i j) = mset xs"
    using assms by (simp add: swap_elems_def mset_swap)
  then show ?thesis using assms by (auto simp: perm_range_def nth_swap_elems)
qed

text \<open>A property of every element of the range survives a rearrangement of the range.\<close>

lemma perm_range_all:
  assumes perm: "perm_range a b xs ys" and le: "a \<le> b" "b \<le> length xs"
    and P: "\<And>i. a \<le> i \<Longrightarrow> i < b \<Longrightarrow> P (xs ! i)" and k: "a \<le> k" "k < b"
  shows "P (ys ! k)"
proof -
  have len: "length ys = length xs" using perm by (rule perm_range_length)
  let ?mid = "\<lambda>zs. take (b - a) (drop a zs)"
  have split: "zs = take a zs @ ?mid zs @ drop b zs" if "length zs = length xs" for zs :: "'a list"
  proof -
    have "take a zs @ ?mid zs @ drop (b - a) (drop a zs) = zs" by (simp only: append_take_drop_id)
    moreover have "drop (b - a) (drop a zs) = drop b zs" using le by simp
    ultimately show ?thesis by simp
  qed
  have "take a ys = take a xs" and "drop b ys = drop b xs"
    using perm len le by (auto simp: perm_range_def intro!: nth_equalityI)
  moreover have "mset (take a ys @ ?mid ys @ drop b ys) = mset (take a xs @ ?mid xs @ drop b xs)"
    using perm split [of ys] split [of xs] len by (simp add: perm_range_def)
  ultimately have "mset (?mid ys) = mset (?mid xs)" by simp
  then have "set (?mid ys) = set (?mid xs)" by (metis set_mset_mset)
  moreover have "ys ! k = ?mid ys ! (k - a)" and "k - a < length (?mid ys)"
    using k le len by simp_all
  ultimately have "ys ! k \<in> set (?mid xs)" using nth_mem by metis
  then obtain i where "i < b - a" and "ys ! k = xs ! (a + i)"
    using le by (auto simp: in_set_conv_nth)
  then show ?thesis using P [of "a + i"] by simp
qed

lemma perm_range_sorted:
  assumes "perm_range a b xs ys" and "sorted_range lt c d xs" and "d \<le> a \<or> b \<le> c" and "d \<le> length xs"
  shows "sorted_range lt c d ys"
proof -
  have "ys ! i = xs ! i" if "c \<le> i" "i < d" for i
    using assms(3,4) that by (intro perm_range_outside [OF assms(1)]) auto
  then show ?thesis using assms(2) by (simp add: sorted_range_def)
qed

text \<open>The four regions of the loop of \<^verbatim>\<open>doPivot\<close>, from the comment before it.\<close>

definition pivot_inv ::
  "('a \<Rightarrow> 'a \<Rightarrow> bool) \<Rightarrow> nat \<Rightarrow> nat \<Rightarrow> 'a list \<Rightarrow> nat \<Rightarrow> nat \<Rightarrow> nat \<Rightarrow> nat \<Rightarrow> bool" where
  "pivot_inv lt lo hi xs a b c d \<longleftrightarrow>
     lo < a \<and> a \<le> b \<and> b \<le> c \<and> c \<le> d \<and> d \<le> hi \<and> hi \<le> length xs \<and>
     (\<forall>i. lo \<le> i \<and> i < a \<longrightarrow> \<not> lt (xs ! i) (xs ! lo) \<and> \<not> lt (xs ! lo) (xs ! i)) \<and>
     (\<forall>i. a \<le> i \<and> i < b \<longrightarrow> lt (xs ! i) (xs ! lo)) \<and>
     (\<forall>i. c \<le> i \<and> i < d \<longrightarrow> lt (xs ! lo) (xs ! i)) \<and>
     (\<forall>i. d \<le> i \<and> i < hi \<longrightarrow> \<not> lt (xs ! i) (xs ! lo) \<and> \<not> lt (xs ! lo) (xs ! i))"

lemma pivot_inv_below:
  "pivot_inv lt lo hi xs a b c d \<Longrightarrow> b < c \<Longrightarrow> lt (xs ! b) (xs ! lo) \<Longrightarrow>
   pivot_inv lt lo hi xs a (b + 1) c d"
  unfolding pivot_inv_def by (auto simp: less_Suc_eq)

lemma pivot_inv_above:
  assumes "pivot_inv lt lo hi xs a b c d" "b < c" "lt (xs ! lo) (xs ! (c - 1))"
  shows "pivot_inv lt lo hi xs a b (c - 1) d"
proof -
  have "lt (xs ! lo) (xs ! i)" if "c - 1 \<le> i" "i < d" for i
    using assms that by (cases "i = c - 1") (auto simp: pivot_inv_def)
  then show ?thesis using assms unfolding pivot_inv_def by auto
qed

lemma pivot_inv_equal_left:
  assumes inv: "pivot_inv lt lo hi xs a b c d" and "b < c"
    and eq: "\<not> lt (xs ! b) (xs ! lo)" "\<not> lt (xs ! lo) (xs ! b)"
  shows "pivot_inv lt lo hi (swap_elems xs a b) (a + 1) (b + 1) c d"
proof -
  have le: "lo < a" "a \<le> b" "c \<le> d" "d \<le> hi" "hi \<le> length xs" using inv by (simp_all add: pivot_inv_def)
  have nth: "swap_elems xs a b ! k = (if k = a then xs ! b else if k = b then xs ! a else xs ! k)" for k
    using le \<open>b < c\<close> by (simp add: nth_swap_elems)
  have "\<not> lt (xs ! i) (xs ! lo) \<and> \<not> lt (xs ! lo) (xs ! i)" if "lo \<le> i \<and> i < a \<or> d \<le> i \<and> i < hi" for i
    using inv that by (auto simp: pivot_inv_def)
  moreover have "lt (xs ! i) (xs ! lo)" if "a \<le> i" "i < b" for i
    using inv that by (simp add: pivot_inv_def)
  moreover have "lt (xs ! lo) (xs ! i)" if "c \<le> i" "i < d" for i
    using inv that by (simp add: pivot_inv_def)
  ultimately show ?thesis
    using le \<open>b < c\<close> eq unfolding pivot_inv_def by (simp add: nth)
qed

lemma pivot_inv_equal_right:
  assumes inv: "pivot_inv lt lo hi xs a b c d" and "b < c"
    and eq: "\<not> lt (xs ! (c - 1)) (xs ! lo)" "\<not> lt (xs ! lo) (xs ! (c - 1))"
  shows "pivot_inv lt lo hi (swap_elems xs (c - 1) (d - 1)) a b (c - 1) (d - 1)"
proof -
  obtain c' d' where cd: "c = Suc c'" "d = Suc d'"
    using inv \<open>b < c\<close> by (cases c; cases d) (auto simp: pivot_inv_def)
  have le: "lo < a" "a \<le> b" "b \<le> c'" "c' \<le> d'" "Suc d' \<le> hi" "hi \<le> length xs"
    using inv \<open>b < c\<close> by (simp_all add: pivot_inv_def cd)
  have nth: "swap_elems xs c' d' ! k = (if k = c' then xs ! d' else if k = d' then xs ! c' else xs ! k)" for k
    using le by (simp add: nth_swap_elems)
  have "\<not> lt (xs ! i) (xs ! lo) \<and> \<not> lt (xs ! lo) (xs ! i)" if "lo \<le> i \<and> i < a \<or> Suc d' \<le> i \<and> i < hi" for i
    using inv that by (auto simp: pivot_inv_def cd)
  moreover have "lt (xs ! i) (xs ! lo)" if "a \<le> i" "i < b" for i
    using inv that by (simp add: pivot_inv_def)
  moreover have "lt (xs ! lo) (xs ! i)" if "Suc c' \<le> i" "i < Suc d'" for i
    using inv that by (simp add: pivot_inv_def cd)
  ultimately show ?thesis
    using le eq unfolding pivot_inv_def cd by (simp add: nth)
qed

lemma pivot_inv_exchange:
  assumes inv: "pivot_inv lt lo hi xs a b c d" and "b + 1 < c"
    and "lt (xs ! lo) (xs ! b)" "lt (xs ! (c - 1)) (xs ! lo)"
  shows "pivot_inv lt lo hi (swap_elems xs b (c - 1)) a (b + 1) (c - 1) d"
proof -
  obtain c' where c: "c = Suc c'" using \<open>b + 1 < c\<close> by (cases c) auto
  have le: "lo < a" "a \<le> b" "b < c'" "c' < d" "d \<le> hi" "hi \<le> length xs"
    using inv \<open>b + 1 < c\<close> by (simp_all add: pivot_inv_def c)
  have nth: "swap_elems xs b c' ! k = (if k = b then xs ! c' else if k = c' then xs ! b else xs ! k)" for k
    using le by (simp add: nth_swap_elems)
  have "\<not> lt (xs ! i) (xs ! lo) \<and> \<not> lt (xs ! lo) (xs ! i)" if "lo \<le> i \<and> i < a \<or> d \<le> i \<and> i < hi" for i
    using inv that by (auto simp: pivot_inv_def)
  moreover have "lt (xs ! i) (xs ! lo)" if "a \<le> i" "i < b" for i
    using inv that by (simp add: pivot_inv_def)
  moreover have "lt (xs ! lo) (xs ! i)" if "Suc c' \<le> i" "i < d" for i
    using inv that by (simp add: pivot_inv_def c)
  ultimately show ?thesis
    using le assms(3,4) unfolding pivot_inv_def c by (simp add: nth)
qed

text \<open>What \<^verbatim>\<open>doPivot\<close> leaves: the elements below the pivot, equal to it, and above it.\<close>

definition partitioned :: "('a \<Rightarrow> 'a \<Rightarrow> bool) \<Rightarrow> nat \<Rightarrow> nat \<Rightarrow> 'a \<Rightarrow> 'a list \<Rightarrow> nat \<Rightarrow> nat \<Rightarrow> bool" where
  "partitioned lt lo hi p xs mlo mhi \<longleftrightarrow>
     (\<forall>i. lo \<le> i \<and> i < mlo \<longrightarrow> lt (xs ! i) p) \<and>
     (\<forall>i. mlo \<le> i \<and> i < mhi \<longrightarrow> \<not> lt (xs ! i) p \<and> \<not> lt p (xs ! i)) \<and>
     (\<forall>i. mhi \<le> i \<and> i < hi \<longrightarrow> lt p (xs ! i))"

subsection \<open>The contract of sort.Interface\<close>

locale sort_iface =
  fixes ops :: "'s sort_ops"
    and elems :: "'s \<Rightarrow> 'a list"
    and lt :: "'a \<Rightarrow> 'a \<Rightarrow> bool"
  assumes Len_elems: "sort_Len ops s = length (elems s)"
    and Less_elems: "i < length (elems s) \<Longrightarrow> j < length (elems s) \<Longrightarrow>
      sort_Less ops s i j \<longleftrightarrow> lt (elems s ! i) (elems s ! j)"
    and Swap_elems: "i < length (elems s) \<Longrightarrow> j < length (elems s) \<Longrightarrow>
      elems (sort_Swap ops s i j) = swap_elems (elems s) i j"
    and less_asym: "lt x y \<Longrightarrow> \<not> lt y x"
    and less_split: "lt x z \<Longrightarrow> lt x y \<or> lt y z"
begin

lemma less_irrefl: "\<not> lt x x"
  using less_asym by blast

lemma less_trans: "lt x y \<Longrightarrow> lt y z \<Longrightarrow> lt x z"
  using less_split [of x y z] less_asym [of y z] by simp

lemma not_less_trans: "\<not> lt y x \<Longrightarrow> \<not> lt z y \<Longrightarrow> \<not> lt z x"
  using less_split [of z x y] by blast

lemma Swap_perm:
  "a \<le> i \<Longrightarrow> i < b \<Longrightarrow> a \<le> j \<Longrightarrow> j < b \<Longrightarrow> b \<le> length (elems s) \<Longrightarrow>
   perm_range a b (elems s) (elems (sort_Swap ops s i j))"
  by (simp add: Swap_elems perm_range_swap)

text \<open>
  Insertion: all pairs up to index \<open>i\<close> are in order, but for those whose right element is
  the one at \<open>j\<close>, on its way down.
\<close>

lemma insertion_loop_sorts:
  assumes "a \<le> j" and "j \<le> i" and "i < b" and "b \<le> length (elems s)"
    and "\<And>k l. a \<le> k \<Longrightarrow> k < l \<Longrightarrow> l \<le> i \<Longrightarrow> l \<noteq> j \<Longrightarrow> \<not> lt (elems s ! l) (elems s ! k)"
  shows "perm_range a b (elems s) (elems (insertion_loop ops a j s)) \<and>
    sorted_range lt a (Suc i) (elems (insertion_loop ops a j s))"
  using assms
proof (induction j arbitrary: s)
  case 0
  then show ?case by (simp add: insertion_loop.simps [of ops _ 0] sorted_range_def)
next
  case (Suc j)
  let ?xs = "elems s"
  have len: "Suc j < length ?xs" "j < length ?xs" using Suc.prems by simp_all
  show ?case
  proof (cases "a \<le> j \<and> lt (?xs ! Suc j) (?xs ! j)")
    case True
    let ?s = "sort_Swap ops s (Suc j) j"
    have ys: "elems ?s = swap_elems ?xs (Suc j) j" using len by (simp add: Swap_elems)
    have ord: "\<not> lt (elems ?s ! l) (elems ?s ! k)"
      if "a \<le> k" "k < l" "l \<le> i" "l \<noteq> j" for k l
      using that Suc.prems(5) [of k l] Suc.prems(5) [of "Suc j" l] Suc.prems(5) [of j l]
        Suc.prems(5) [of k j] True len less_asym [of "?xs ! Suc j" "?xs ! j"] Suc.prems(2)
      unfolding ys by (auto simp: nth_swap_elems)
    have perm: "perm_range a b ?xs (elems ?s)"
      using Suc.prems True by (intro Swap_perm) simp_all
    from Suc.IH [of ?s] True Suc.prems ord perm_range_length [OF perm]
    have "perm_range a b (elems ?s) (elems (insertion_loop ops a j ?s)) \<and>
      sorted_range lt a (Suc i) (elems (insertion_loop ops a j ?s))" by simp
    moreover have "insertion_loop ops a (Suc j) s = insertion_loop ops a j ?s"
      using True len by (simp add: insertion_loop.simps [of ops a "Suc j"] Less_elems)
    ultimately show ?thesis using perm_range_trans [OF perm] by simp
  next
    case False
    have "\<not> lt (?xs ! l) (?xs ! k)" if "a \<le> k" "k < l" "l \<le> i" for k l
    proof (cases "l = Suc j")
      case True
      then have "\<not> lt (?xs ! l) (?xs ! j)" using False that by simp
      moreover have "\<not> lt (?xs ! j) (?xs ! k)"
        using that True less_irrefl Suc.prems(5) [of k j] Suc.prems(2) by (cases "k = j") simp_all
      ultimately show ?thesis using not_less_trans by blast
    next
      case neq: False
      with Suc.prems(5) that show ?thesis by blast
    qed
    then show ?thesis
      using False len by (auto simp: insertion_loop.simps [of ops a "Suc j"] Less_elems sorted_range_def)
  qed
qed

lemma insertionSort_sorts:
  assumes "b \<le> length (elems s)"
  shows "perm_range a b (elems s) (elems (insertionSort ops a b s))"
    and "sorted_range lt a b (elems (insertionSort ops a b s))"
proof -
  let ?f = "\<lambda>i. fold (insertion_loop ops a) [a + 1..<i] s"
  have *: "perm_range a b (elems s) (elems (?f (a + 1 + n))) \<and>
      sorted_range lt a (a + 1 + n) (elems (?f (a + 1 + n)))" if "a + 1 + n \<le> b" for n
    using that
  proof (induction n)
    case 0
    then show ?case by (simp add: sorted_range_short)
  next
    case (Suc n)
    let ?i = "a + 1 + n"
    have IH: "perm_range a b (elems s) (elems (?f ?i))" "sorted_range lt a ?i (elems (?f ?i))"
      using Suc by simp_all
    have ord: "\<not> lt (elems (?f ?i) ! l) (elems (?f ?i) ! k)"
      if "a \<le> k" "k < l" "l \<le> ?i" "l \<noteq> ?i" for k l
      using IH(2) that unfolding sorted_range_def by (metis le_neq_implies_less)
    have "perm_range a b (elems (?f ?i)) (elems (insertion_loop ops a ?i (?f ?i))) \<and>
        sorted_range lt a (Suc ?i) (elems (insertion_loop ops a ?i (?f ?i)))"
      using Suc.prems assms perm_range_length [OF IH(1)] by (intro insertion_loop_sorts ord) simp_all
    moreover have "?f (a + 1 + Suc n) = insertion_loop ops a ?i (?f ?i)" by simp
    ultimately show ?case using perm_range_trans [OF IH(1)] by simp
  qed
  have "perm_range a b (elems s) (elems (?f b)) \<and> sorted_range lt a b (elems (?f b))"
  proof (cases "a < b")
    case True
    then have "a + 1 + (b - (a + 1)) = b" by simp
    then show ?thesis using * [of "b - (a + 1)"] by simp
  qed (simp add: sorted_range_short)
  then show "perm_range a b (elems s) (elems (insertionSort ops a b s))"
    and "sorted_range lt a b (elems (insertionSort ops a b s))"
    by (simp_all add: insertionSort_def)
qed

lemma medianOfThree_perm:
  assumes "lo \<le> a" "a < hi" "lo \<le> b" "b < hi" "lo \<le> c" "c < hi" "hi \<le> length (elems s)"
  shows "perm_range lo hi (elems s) (elems (medianOfThree ops a b c s))"
proof -
  have step: "perm_range lo hi (elems s) (elems (if q then sort_Swap ops t i j else t))"
    if "perm_range lo hi (elems s) (elems t)" "lo \<le> i" "i < hi" "lo \<le> j" "j < hi" for t q i j
    using that assms perm_range_trans [OF that(1) Swap_perm] perm_range_length [OF that(1)] by simp
  show ?thesis
    unfolding medianOfThree_def Let_def using assms by (intro step) simp_all
qed

text \<open>The claim of its comment: the median of the three elements ends at index \<open>a\<close>.\<close>

lemma medianOfThree_median:
  assumes "a < length (elems s)" "b < length (elems s)" "c < length (elems s)"
    and "a \<noteq> b" "b \<noteq> c" "a \<noteq> c" and t: "t = medianOfThree ops a b c s"
  shows "\<not> lt (elems t ! a) (elems t ! b)" and "\<not> lt (elems t ! c) (elems t ! a)"
    and "\<not> lt (elems t ! c) (elems t ! b)"
proof -
  let ?x = "elems s ! a" and ?y = "elems s ! b" and ?z = "elems s ! c"
  note ord = less_asym [of ?x ?y] less_asym [of ?y ?z] less_asym [of ?x ?z]
      less_split [of ?x ?y ?z] less_split [of ?x ?z ?y] less_split [of ?y ?x ?z]
      less_split [of ?y ?z ?x] less_split [of ?z ?x ?y] less_split [of ?z ?y ?x]
  note eval = medianOfThree_def Let_def Less_elems Swap_elems nth_swap_elems assms(1-3)
    assms(4-6) assms(4-6) [symmetric]
  show "\<not> lt (elems t ! a) (elems t ! b)"
    unfolding t by (simp add: eval) (use ord in argo)
  show "\<not> lt (elems t ! c) (elems t ! a)"
    unfolding t by (simp add: eval) (use ord in argo)
  show "\<not> lt (elems t ! c) (elems t ! b)"
    unfolding t by (simp add: eval) (use ord in argo)
qed

lemma choosePivot_perm:
  assumes "lo + 7 < hi" and "hi \<le> length (elems s)"
  shows "perm_range lo hi (elems s) (elems (choosePivot ops lo hi s))"
proof -
  have step: "perm_range lo hi (elems s) (elems (medianOfThree ops i j k t))"
    if "perm_range lo hi (elems s) (elems t)" "lo \<le> i" "i < hi" "lo \<le> j" "j < hi" "lo \<le> k" "k < hi"
    for t i j k
    using that assms(2) perm_range_trans [OF that(1) medianOfThree_perm] perm_range_length [OF that(1)] by simp
  have m: "lo \<le> (lo + hi) div 2" "(lo + hi) div 2 < hi" using assms(1) by simp_all
  show ?thesis
  proof (cases "hi - lo > 40")
    case True
    define d where "d = (hi - lo) div 8"
    have d: "lo + 2 * d < hi" "lo + d \<le> (lo + hi) div 2" "(lo + hi) div 2 + d < hi"
      unfolding d_def using True by linarith+
    define t1 where "t1 = medianOfThree ops lo (lo + d) (lo + 2 * d) s"
    have t1: "perm_range lo hi (elems s) (elems t1)"
      unfolding t1_def using d by (intro step) simp_all
    define t2 where "t2 = medianOfThree ops ((lo + hi) div 2) ((lo + hi) div 2 - d) ((lo + hi) div 2 + d) t1"
    have t2: "perm_range lo hi (elems s) (elems t2)"
      unfolding t2_def using d m by (intro step t1) linarith+
    define t3 where "t3 = medianOfThree ops (hi - 1) (hi - 1 - d) (hi - 1 - 2 * d) t2"
    have t3: "perm_range lo hi (elems s) (elems t3)"
      unfolding t3_def using d by (intro step t2) linarith+
    have "choosePivot ops lo hi s = medianOfThree ops lo ((lo + hi) div 2) (hi - 1) t3"
      using True by (simp only: choosePivot_def Let_def t1_def t2_def t3_def d_def if_True)
    then show ?thesis using m assms(1) by (simp add: step [OF t3])
  next
    case False
    then have "choosePivot ops lo hi s = medianOfThree ops lo ((lo + hi) div 2) (hi - 1) s"
      by (simp only: choosePivot_def Let_def if_False)
    then show ?thesis using m assms(1) by (simp add: step)
  qed
qed

lemma swapRange_nth:
  assumes "a + n \<le> b" and "b + n \<le> length (elems s)"
  shows "length (elems (swapRange ops a b n s)) = length (elems s) \<and>
    (\<forall>k < length (elems s). elems (swapRange ops a b n s) ! k =
       (if a \<le> k \<and> k < a + n then elems s ! (k + (b - a))
        else if b \<le> k \<and> k < b + n then elems s ! (k - (b - a))
        else elems s ! k))"
  using assms
proof (induction n)
  case 0
  then show ?case by (simp add: swapRange_def)
next
  case (Suc n)
  let ?t = "swapRange ops a b n s"
  have len: "length (elems ?t) = length (elems s)" using Suc by simp
  have "swapRange ops a b (Suc n) s = sort_Swap ops ?t (a + n) (b + n)"
    by (simp add: swapRange_def)
  then have eq: "elems (swapRange ops a b (Suc n) s) = swap_elems (elems ?t) (a + n) (b + n)"
    using Suc.prems len by (simp add: Swap_elems)
  have IH: "elems ?t ! k =
       (if a \<le> k \<and> k < a + n then elems s ! (k + (b - a))
        else if b \<le> k \<and> k < b + n then elems s ! (k - (b - a))
        else elems s ! k)" if "k < length (elems s)" for k
    using Suc that by simp
  show ?case
    unfolding eq using Suc.prems len
    by (auto simp: nth_swap_elems IH add.commute [of n])
qed

lemma swapRange_perm:
  assumes "lo \<le> a" "a + n \<le> b" "b + n \<le> hi" "hi \<le> length (elems s)"
  shows "perm_range lo hi (elems s) (elems (swapRange ops a b n s))"
  using assms
proof (induction n)
  case (Suc n)
  let ?t = "swapRange ops a b n s"
  have t: "perm_range lo hi (elems s) (elems ?t)" using Suc by simp
  have "perm_range lo hi (elems ?t) (elems (sort_Swap ops ?t (a + n) (b + n)))"
    using Suc.prems perm_range_length [OF t] by (intro Swap_perm) simp_all
  from perm_range_trans [OF t this] show ?case by (simp add: swapRange_def)
qed (simp add: swapRange_def)

lemma pivot_loop_inv:
  assumes "pivot_inv lt lo hi (elems s) a b c d" and "pivot_loop ops lo s a b c d = (s', a', b', c', d')"
  shows "pivot_inv lt lo hi (elems s') a' b' c' d' \<and> perm_range lo hi (elems s) (elems s')"
  using assms
proof (induction "c - b" arbitrary: s a b c d rule: less_induct)
  case less
  let ?xs = "elems s"
  note inv = less.prems(1)
  note step = pivot_loop.simps [of ops lo s a b c d]
  have le: "lo < a" "a \<le> b" "b \<le> c" "c \<le> d" "d \<le> hi" "hi \<le> length ?xs"
    using inv by (simp_all add: pivot_inv_def)
  have next_pass: ?case
    if "pivot_inv lt lo hi (elems t) p q r u" "pivot_loop ops lo t p q r u = (s', a', b', c', d')"
      "r - q < c - b" "perm_range lo hi ?xs (elems t)" for t p q r u
    using less.hyps [OF that(3,1,2)] perm_range_trans [OF that(4)] by simp
  consider "c \<le> b"
    | "b < c" "lt (?xs ! b) (?xs ! lo)"
    | "b < c" "\<not> lt (?xs ! b) (?xs ! lo)" "\<not> lt (?xs ! lo) (?xs ! b)"
    | "b < c" "lt (?xs ! lo) (?xs ! b)" "lt (?xs ! lo) (?xs ! (c - 1))"
    | "b < c" "lt (?xs ! lo) (?xs ! b)" "\<not> lt (?xs ! lo) (?xs ! (c - 1))" "\<not> lt (?xs ! (c - 1)) (?xs ! lo)"
    | "b < c" "lt (?xs ! lo) (?xs ! b)" "\<not> lt (?xs ! lo) (?xs ! (c - 1))" "lt (?xs ! (c - 1)) (?xs ! lo)"
    by linarith
  then show ?case
  proof cases
    case 1
    with less.prems show ?thesis by (simp add: step)
  next
    case 2
    with pivot_inv_below [OF inv 2] le less.prems(2) show ?thesis
      by (intro next_pass [of s a "b + 1" c d]) (simp_all add: step Less_elems)
  next
    case 3
    with pivot_inv_equal_left [OF inv 3] le less.prems(2) show ?thesis
      by (intro next_pass [of "sort_Swap ops s a b" "a + 1" "b + 1" c d])
        (simp_all add: step Less_elems Swap_elems perm_range_swap)
  next
    case 4
    with pivot_inv_above [OF inv 4(1,3)] le less.prems(2) less_asym [OF 4(2)] show ?thesis
      by (intro next_pass [of s a b "c - 1" d]) (simp_all add: step Less_elems)
  next
    case 5
    with pivot_inv_equal_right [OF inv 5(1,4,3)] le less.prems(2) less_asym [OF 5(2)] show ?thesis
      by (intro next_pass [of "sort_Swap ops s (c - 1) (d - 1)" a b "c - 1" "d - 1"])
        (simp_all add: step Less_elems Swap_elems perm_range_swap)
  next
    case 6
    then have "b \<noteq> c - 1" by metis
    then have lt: "b + 1 < c" using 6(1) by simp
    with 6 pivot_inv_exchange [OF inv lt 6(2,4)] le less.prems(2) less_asym [OF 6(2)] show ?thesis
      by (intro next_pass [of "sort_Swap ops s b (c - 1)" a "b + 1" "c - 1" d])
        (simp_all add: step Less_elems Swap_elems perm_range_swap)
  qed
qed

text \<open>
  The two calls of \<^verbatim>\<open>swapRange\<close> exchange neighbouring regions \<open>x \<le> i < y\<close> and
  \<open>y \<le> i < z\<close> of different lengths by swapping the outer parts only.
\<close>

lemma swapRange_regions:
  assumes le: "x \<le> y" "y \<le> z" "z \<le> length (elems s)" and n: "n = sort_min (z - y) (y - x)"
    and P: "\<forall>i. x \<le> i \<and> i < y \<longrightarrow> P (elems s ! i)"
    and Q: "\<forall>i. y \<le> i \<and> i < z \<longrightarrow> Q (elems s ! i)"
    and t: "t = swapRange ops x (z - n) n s"
  shows "x \<le> i \<Longrightarrow> i < x + z - y \<Longrightarrow> Q (elems t ! i)"
    and "x + z - y \<le> i \<Longrightarrow> i < z \<Longrightarrow> P (elems t ! i)"
    and "i < length (elems s) \<Longrightarrow> i < x \<or> z \<le> i \<Longrightarrow> elems t ! i = elems s ! i"
    and "perm_range x z (elems s) (elems t)"
proof -
  have n1: "n \<le> z - y" "n \<le> y - x" and n2: "n = z - y \<or> n = y - x"
    by (auto simp: n sort_min_def)
  have r: "x + n \<le> z - n" "z - n + n \<le> length (elems s)" using le n1 by simp_all
  have nth: "elems t ! k =
       (if x \<le> k \<and> k < x + n then elems s ! (k + (z - n - x))
        else if z - n \<le> k \<and> k < z then elems s ! (k - (z - n - x))
        else elems s ! k)" if "k < length (elems s)" for k
    using swapRange_nth [OF r] that le n1 unfolding t by simp
  show "Q (elems t ! i)" if "x \<le> i" "i < x + z - y"
    using that n1 n2 le by (subst nth) (auto intro!: Q [rule_format])
  show "P (elems t ! i)" if "x + z - y \<le> i" "i < z"
    using that n1 n2 le by (subst nth) (auto intro!: P [rule_format])
  show "elems t ! i = elems s ! i" if "i < length (elems s)" "i < x \<or> z \<le> i"
    using that n1 le by (subst nth) auto
  show "perm_range x z (elems s) (elems t)"
    unfolding t using r le n1 by (intro swapRange_perm) simp_all
qed

lemma middle_swaps:
  assumes inv: "pivot_inv lt lo hi (elems s1) a c c d" and p: "p = elems s1 ! lo"
    and n1: "n1 = sort_min (c - a) (a - lo)" and s2: "s2 = swapRange ops lo (c - n1) n1 s1"
    and n2: "n2 = sort_min (hi - d) (d - c)" and s3: "s3 = swapRange ops c (hi - n2) n2 s2"
  shows "partitioned lt lo hi p (elems s3) (lo + c - a) (c + hi - d)"
    and "perm_range lo hi (elems s1) (elems s3)"
proof -
  let ?eq = "\<lambda>x. \<not> lt x p \<and> \<not> lt p x"
  have le: "lo \<le> a" "a \<le> c" "c \<le> d" "d \<le> hi" "hi \<le> length (elems s1)" "c \<le> length (elems s1)"
    and eq: "\<forall>i. lo \<le> i \<and> i < a \<longrightarrow> ?eq (elems s1 ! i)" "\<forall>i. d \<le> i \<and> i < hi \<longrightarrow> ?eq (elems s1 ! i)"
    and bl: "\<forall>i. a \<le> i \<and> i < c \<longrightarrow> lt (elems s1 ! i) p"
    and ab: "\<forall>i. c \<le> i \<and> i < d \<longrightarrow> lt p (elems s1 ! i)"
    using inv by (auto simp: pivot_inv_def p)
  note left = swapRange_regions [OF le(1,2,6) n1, where P = ?eq and Q = "\<lambda>x. lt x p", OF eq(1) bl s2]
  have l2: "length (elems s2) = length (elems s1)" using left(4) by (rule perm_range_length)
  have "elems s2 ! i = elems s1 ! i" if "c \<le> i" "i < hi" for i
    using that le by (intro left(3)) simp_all
  then have ab2: "\<forall>i. c \<le> i \<and> i < d \<longrightarrow> lt p (elems s2 ! i)"
    and eq2: "\<forall>i. d \<le> i \<and> i < hi \<longrightarrow> ?eq (elems s2 ! i)"
    using ab eq(2) le by auto
  have hi: "hi \<le> length (elems s2)" using le l2 by simp
  note right = swapRange_regions [OF le(3,4) hi n2, where P = "lt p" and Q = ?eq, OF ab2 eq2 s3]
  have same: "elems s3 ! i = elems s2 ! i" if "i < c" for i
    using that le l2 by (intro right(3)) simp_all
  show "partitioned lt lo hi p (elems s3) (lo + c - a) (c + hi - d)"
    unfolding partitioned_def
  proof (intro conjI allI impI)
    fix i
    assume i: "lo \<le> i \<and> i < lo + c - a"
    then have "i < c" using le by linarith
    with i same left(1) show "lt (elems s3 ! i) p" by simp
  next
    fix i
    assume i: "lo + c - a \<le> i \<and> i < c + hi - d"
    then have "?eq (elems s3 ! i)" using same left(2) [of i] right(1) [of i] by (cases "i < c") simp_all
    then show "\<not> lt (elems s3 ! i) p" and "\<not> lt p (elems s3 ! i)" by simp_all
  qed (use right(2) in simp)
  show "perm_range lo hi (elems s1) (elems s3)"
    using perm_range_trans [OF perm_range_widen [OF left(4)] perm_range_widen [OF right(4)]] le by simp
qed

lemma doPivot_partitions:
  assumes "lo + 7 < hi" and "hi \<le> length (elems s)" and "doPivot ops lo hi s = (s', mlo, mhi)"
  shows "\<exists>p. partitioned lt lo hi p (elems s') mlo mhi" and "mlo \<le> mhi"
    and "perm_range lo hi (elems s) (elems s')"
proof -
  define s0 where "s0 = choosePivot ops lo hi s"
  have s0: "perm_range lo hi (elems s) (elems s0)"
    unfolding s0_def using assms by (intro choosePivot_perm)
  obtain s1 a b c d where loop: "pivot_loop ops lo s0 (lo + 1) (lo + 1) hi hi = (s1, a, b, c, d)"
    by (metis prod_cases5)
  have "pivot_inv lt lo hi (elems s0) (lo + 1) (lo + 1) hi hi"
    using assms less_irrefl perm_range_length [OF s0] by (auto simp: pivot_inv_def less_Suc_eq)
  from pivot_loop_inv [OF this loop]
  have inv: "pivot_inv lt lo hi (elems s1) a b c d" and s1: "perm_range lo hi (elems s0) (elems s1)"
    by simp_all
  have bc: "b = c" and le: "lo < a" "a \<le> b" "c \<le> d" "d \<le> hi"
    using pivot_loop_bounds [OF loop] assms(1) by simp_all
  have res: "mlo = lo + c - a" "mhi = c + hi - d"
    "s' = swapRange ops c (hi - sort_min (hi - d) (d - c)) (sort_min (hi - d) (d - c))
       (swapRange ops lo (c - sort_min (c - a) (a - lo)) (sort_min (c - a) (a - lo)) s1)"
    using assms(3) loop bc le by (auto simp: doPivot_def Let_def s0_def [symmetric])
  note swaps = middle_swaps [OF inv [unfolded bc] refl refl refl refl refl, folded res]
  show "\<exists>p. partitioned lt lo hi p (elems s') mlo mhi" using swaps(1) by blast
  show "perm_range lo hi (elems s) (elems s')"
    using perm_range_trans [OF perm_range_trans [OF s0 s1] swaps(2)] .
  show "mlo \<le> mhi" using res le bc by simp
qed

text \<open>Sorted outer parts of a partitioned range make the range sorted.\<close>

lemma partitioned_sorted:
  assumes p: "partitioned lt lo hi p xs mlo mhi" and "mlo \<le> mhi"
    and "sorted_range lt lo mlo xs" and "sorted_range lt mhi hi xs"
  shows "sorted_range lt lo hi xs"
  unfolding sorted_range_def
proof (intro allI impI)
  fix i j
  assume ij: "lo \<le> i \<and> i < j \<and> j < hi"
  show "\<not> lt (xs ! j) (xs ! i)"
  proof (cases "j < mlo \<or> mhi \<le> i")
    case True
    with assms(3,4) ij show ?thesis unfolding sorted_range_def by (metis order_less_trans le_less_trans)
  next
    case False
    have "\<not> lt p (xs ! i)" using p ij False less_asym unfolding partitioned_def by (metis not_le)
    moreover have "\<not> lt (xs ! j) p" using p ij False less_asym unfolding partitioned_def by (metis not_le)
    ultimately show ?thesis by (rule not_less_trans)
  qed
qed

lemma partitioned_perm:
  assumes "partitioned lt lo hi p xs mlo mhi" and "lo \<le> mlo" "mlo \<le> mhi" "mhi \<le> hi" "hi \<le> length xs"
    and "perm_range lo mlo xs ys \<or> perm_range mhi hi xs ys"
  shows "partitioned lt lo hi p ys mlo mhi"
  using assms(6)
proof
  assume perm: "perm_range lo mlo xs ys"
  have "ys ! i = xs ! i" if "mlo \<le> i" "i < hi" for i
    using that assms by (intro perm_range_outside [OF perm]) simp_all
  moreover have "lt (ys ! i) p" if "lo \<le> i" "i < mlo" for i
    using perm_range_all [OF perm _ _ _ that, where P = "\<lambda>x. lt x p"] assms by (simp add: partitioned_def)
  ultimately show ?thesis using assms by (simp add: partitioned_def)
next
  assume perm: "perm_range mhi hi xs ys"
  have "ys ! i = xs ! i" if "lo \<le> i" "i < mhi" for i
    using that assms by (intro perm_range_outside [OF perm]) simp_all
  moreover have "lt p (ys ! i)" if "mhi \<le> i" "i < hi" for i
    using perm_range_all [OF perm _ _ _ that, where P = "lt p"] assms by (simp add: partitioned_def)
  ultimately show ?thesis using assms by (simp add: partitioned_def)
qed

lemma quickSort_sorts:
  assumes "b \<le> length (elems s)"
  shows "perm_range a b (elems s) (elems (quickSort ops a b s)) \<and>
    sorted_range lt a b (elems (quickSort ops a b s))"
  using assms
proof (induction "b - a" arbitrary: a b s rule: less_induct)
  case less
  note step = quickSort.simps [of ops a b s]
  show ?case
  proof (cases "b - a > 7")
    case True
    obtain s1 mlo mhi where piv: "doPivot ops a b s = (s1, mlo, mhi)" by (metis prod_cases3)
    have ab: "a + 7 < b" "a < b" using True by simp_all
    note bounds = doPivot_bounds [OF piv ab(2)]
    note part = doPivot_partitions [OF ab(1) less.prems piv]
    from part(1) obtain p where p1: "partitioned lt a b p (elems s1) mlo mhi" by blast
    have l1: "length (elems s1) = length (elems s)" using part(3) by (rule perm_range_length)
    define s2 where "s2 = quickSort ops a mlo s1"
    have s2: "perm_range a mlo (elems s1) (elems s2)" "sorted_range lt a mlo (elems s2)"
      using less.hyps [of mlo a s1] bounds l1 less.prems by (auto simp: s2_def)
    have l2: "length (elems s2) = length (elems s)" using perm_range_length [OF s2(1)] l1 by simp
    have p2: "partitioned lt a b p (elems s2) mlo mhi"
      using partitioned_perm [OF p1] bounds part(2) s2(1) l1 less.prems by simp
    define s3 where "s3 = quickSort ops mhi b s2"
    have s3: "perm_range mhi b (elems s2) (elems s3)" "sorted_range lt mhi b (elems s3)"
      using less.hyps [of b mhi s2] bounds l2 less.prems ab by (auto simp: s3_def)
    have "partitioned lt a b p (elems s3) mlo mhi"
      using partitioned_perm [OF p2] bounds part(2) s3(1) l2 less.prems by simp
    moreover have "sorted_range lt a mlo (elems s3)"
      using perm_range_sorted [OF s3(1) s2(2)] part(2) bounds l2 less.prems by simp
    ultimately have "sorted_range lt a b (elems s3)" using partitioned_sorted part(2) s3(2) by blast
    moreover have "perm_range a b (elems s) (elems s3)"
      using perm_range_trans [OF part(3) perm_range_trans [OF perm_range_widen [OF s2(1)]
            perm_range_widen [OF s3(1)]]] bounds by simp
    moreover have "quickSort ops a b s = s3"
      using True piv by (simp add: step s2_def s3_def)
    ultimately show ?thesis by simp
  next
    case False
    then show ?thesis
      using insertionSort_sorts [OF less.prems] by (auto simp: step intro: sorted_range_short)
  qed
qed

lemma Sort_sorts:
  "mset (elems (sort_Sort ops s)) = mset (elems s)"
  "sorted_range lt 0 (length (elems s)) (elems (sort_Sort ops s))"
  using quickSort_sorts [of "length (elems s)" s 0]
  by (simp_all add: sort_Sort_def Len_elems perm_range_def)

lemma isSorted_loop_iff:
  "i < length (elems s) \<Longrightarrow> isSorted_loop ops s i \<longleftrightarrow> sorted_range lt 0 (Suc i) (elems s)"
proof (induction i)
  case 0
  then show ?case by (simp add: isSorted_loop.simps sorted_range_short)
next
  case (Suc i)
  let ?xs = "elems s"
  have "sorted_range lt 0 (Suc (Suc i)) ?xs \<longleftrightarrow>
      \<not> lt (?xs ! Suc i) (?xs ! i) \<and> sorted_range lt 0 (Suc i) ?xs"
  proof
    assume *: "\<not> lt (?xs ! Suc i) (?xs ! i) \<and> sorted_range lt 0 (Suc i) ?xs"
    then have "\<not> lt (?xs ! Suc i) (?xs ! k)" if "k < Suc i" for k
      using that not_less_trans [of "?xs ! i" "?xs ! k" "?xs ! Suc i"]
      by (cases "k = i") (auto simp: sorted_range_def)
    with * show "sorted_range lt 0 (Suc (Suc i)) ?xs" by (auto simp: sorted_range_def less_Suc_eq)
  qed (auto simp: sorted_range_def)
  then show ?case
    using Suc by (simp add: isSorted_loop.simps [of ops s "Suc i"] Less_elems)
qed

lemma IsSorted_iff: "sort_IsSorted ops s \<longleftrightarrow> sorted_range lt 0 (length (elems s)) (elems s)"
proof (cases "elems s = []")
  case True
  then show ?thesis
    by (simp add: sort_IsSorted_def Len_elems isSorted_loop.simps sorted_range_short)
next
  case False
  then show ?thesis
    using isSorted_loop_iff [of "length (elems s) - 1" s] by (simp add: sort_IsSorted_def Len_elems)
qed

end

subsection \<open>The convenience types satisfy the contract\<close>

lemma sorted_range_linorder:
  "sorted_range (<) 0 (length xs) xs \<longleftrightarrow> sorted (xs :: 'a::linorder list)"
  by (auto simp: sorted_range_def sorted_iff_nth_mono_less not_less)

lemma sorted_perm_sort:
  assumes "mset ys = mset xs" and "sorted_range (<) 0 (length xs) ys"
  shows "ys = sort (xs :: 'a::linorder list)"
proof -
  have "length xs = length ys" using assms(1) [symmetric] by (rule mset_eq_length)
  then have "sorted ys" using assms(2) sorted_range_linorder [of ys] by simp
  then show ?thesis using assms(1) by (intro properties_for_sort [symmetric])
qed

interpretation ints: sort_iface IntArray "\<lambda>p. p" "(<) :: int \<Rightarrow> int \<Rightarrow> bool"
  by unfold_locales (auto simp: IntArray_def)

interpretation strs: sort_iface StringArray "\<lambda>p. p" "(<) :: string \<Rightarrow> string \<Rightarrow> bool"
  by unfold_locales (auto simp: StringArray_def)

text \<open>
  C4: \<^verbatim>\<open>SortInts\<close> and \<^verbatim>\<open>SortStrings\<close> return the sorted rearrangement of their argument: the
  quicksort with its insertion sort on short ranges, run through the method table, computes
  the library's \<^const>\<open>sort\<close> on every input.
\<close>

theorem SortInts_correct: "SortInts xs = sort xs \<and> SortStrings ys = sort ys"
  using sorted_perm_sort [OF ints.Sort_sorts] sorted_perm_sort [OF strs.Sort_sorts]
  by (simp add: SortInts_def SortStrings_def)

text \<open>C8: \<^verbatim>\<open>IntsAreSorted\<close> and \<^verbatim>\<open>StringsAreSorted\<close>, which look at neighbours only, decide sortedness.\<close>

theorem IntsAreSorted_correct:
  "(IntsAreSorted xs \<longleftrightarrow> sorted xs) \<and> (StringsAreSorted ys \<longleftrightarrow> sorted ys)"
  by (simp add: IntsAreSorted_def StringsAreSorted_def ints.IsSorted_iff strs.IsSorted_iff sorted_range_linorder)

end
