(* ===== verification/Vector.thy ===== *)
theory Vector
  imports Sort
begin

text \<open>
  Package \<^verbatim>\<open>container/vector\<close> (\<^verbatim>\<open>vector.go\<close>, \<^verbatim>\<open>defs.go\<close>; \<^verbatim>\<open>intvector.go\<close> and
  \<^verbatim>\<open>stringvector.go\<close> are generated from \<^verbatim>\<open>vector.go\<close> for other element types). A vector is a
  Go slice: the elements in use and the rest of the backing array up to the capacity, in the
  record \<open>vec\<close>. The zero value of the element type is an argument of the operations that
  store it. Index and slice expressions out of range are panics.

  The abstraction is the list of elements in use. \<^verbatim>\<open>Resize\<close> and \<^verbatim>\<open>Extend\<close> promise zero values
  and read them from the spare part of the array, which is why every operation that shortens
  a vector clears what it gives up: the invariant \<open>vec_clear\<close>.
\<close>

record 'a vec =
  vec_elems :: "'a list"
  vec_spare :: "'a list"

subsection \<open>The code\<close>

definition vec_Len :: "'a vec \<Rightarrow> nat" where
  "vec_Len p = length (vec_elems p)"

definition vec_Cap :: "'a vec \<Rightarrow> nat" where
  "vec_Cap p = length (vec_elems p) + length (vec_spare p)"

definition vec_initialSize :: nat where "vec_initialSize = 8"

definition vec_realloc :: "'a \<Rightarrow> 'a vec \<Rightarrow> nat \<Rightarrow> nat \<Rightarrow> 'a vec" where
  "vec_realloc zero p len capacity =
     (let capacity = (if capacity < vec_initialSize then vec_initialSize else capacity);
          capacity = (if capacity < len then len else capacity);
          b = replicate len zero
      in \<lparr>vec_elems = copy_at b 0 (take len (vec_elems p)),
          vec_spare = replicate (capacity - len) zero\<rparr>)"

text \<open>The loop of \<^verbatim>\<open>Expand\<close> that makes a hole: \<^verbatim>\<open>for j := len0 - 1; j >= i; j-- { a[j+n] = a[j] }\<close>.\<close>

definition vec_hole :: "nat \<Rightarrow> nat \<Rightarrow> nat \<Rightarrow> 'a list \<Rightarrow> 'a list" where
  "vec_hole i n len0 a = fold (\<lambda>j a. a[j + n := a ! j]) (rev [i..<len0]) a"

definition vec_Expand :: "'a \<Rightarrow> 'a vec \<Rightarrow> nat \<Rightarrow> nat \<Rightarrow> 'a vec" where
  "vec_Expand zero p i n =
     (let len0 = vec_Len p;
          len1 = len0 + n;
          a = (if len1 \<le> vec_Cap p
               then \<lparr>vec_elems = vec_elems p @ take n (vec_spare p), vec_spare = drop n (vec_spare p)\<rparr>
               else let capb = vec_Cap p * 2;
                        capb = (if capb < len1 then len1 else capb)
                    in vec_realloc zero p len1 capb)
      in a\<lparr>vec_elems := vec_hole i n len0 (vec_elems a)\<rparr>)"

definition vec_Extend :: "'a \<Rightarrow> 'a vec \<Rightarrow> nat \<Rightarrow> 'a vec" where
  "vec_Extend zero p n = vec_Expand zero p (vec_Len p) n"

text \<open>
  \<^verbatim>\<open>Resize\<close>; the slice expression \<^verbatim>\<open>a[0:length]\<close> moves the boundary between the elements in
  use and the spare part.
\<close>

definition vec_reslice :: "'a vec \<Rightarrow> nat \<Rightarrow> 'a vec" where
  "vec_reslice a len =
     (let arr = vec_elems a @ vec_spare a in \<lparr>vec_elems = take len arr, vec_spare = drop len arr\<rparr>)"

definition vec_clear_from :: "'a \<Rightarrow> nat \<Rightarrow> 'a vec \<Rightarrow> 'a vec" where
  "vec_clear_from zero k a =
     a\<lparr>vec_elems := take k (vec_elems a) @ replicate (vec_Len a - k) zero\<rparr>"

definition vec_Resize :: "'a \<Rightarrow> 'a vec \<Rightarrow> nat \<Rightarrow> nat \<Rightarrow> 'a vec" where
  "vec_Resize zero p len capacity =
     (let a = (if len > vec_Cap p \<or> capacity > vec_Cap p then vec_realloc zero p len capacity
               else if len < vec_Len p then vec_clear_from zero len p
               else p)
      in vec_reslice a len)"

definition vec_At :: "'a vec \<Rightarrow> nat \<Rightarrow> 'a go" where
  "vec_At p i = (if i < vec_Len p then Inr (vec_elems p ! i) else Inl (Panic ''index out of range''))"

definition vec_Set :: "'a vec \<Rightarrow> nat \<Rightarrow> 'a \<Rightarrow> 'a vec go" where
  "vec_Set p i x =
     (if i < vec_Len p then Inr (p\<lparr>vec_elems := (vec_elems p)[i := x]\<rparr>)
      else Inl (Panic ''index out of range''))"

definition vec_Last :: "'a vec \<Rightarrow> 'a go" where
  "vec_Last p =
     (if vec_Len p = 0 then Inl (Panic ''index out of range'') else Inr (vec_elems p ! (vec_Len p - 1)))"

definition vec_Data :: "'a \<Rightarrow> 'a vec \<Rightarrow> 'a list" where
  "vec_Data zero p = copy_at (replicate (vec_Len p) zero) 0 (vec_elems p)"

definition vec_Insert :: "'a \<Rightarrow> 'a vec \<Rightarrow> nat \<Rightarrow> 'a \<Rightarrow> 'a vec go" where
  "vec_Insert zero p i x = vec_Set (vec_Expand zero p i 1) i x"

definition vec_Delete :: "'a \<Rightarrow> 'a vec \<Rightarrow> nat \<Rightarrow> 'a vec go" where
  "vec_Delete zero p i =
     (let a = vec_elems p; n = length a
      in if i < n
         then let a = copy_at a i (drop (i + 1) a);
                  a = a[n - 1 := zero]
              in Inr (vec_reslice (p\<lparr>vec_elems := a\<rparr>) (n - 1))
         else Inl (Panic ''slice bounds out of range''))"

definition vec_InsertVector :: "'a \<Rightarrow> 'a vec \<Rightarrow> nat \<Rightarrow> 'a vec \<Rightarrow> 'a vec go" where
  "vec_InsertVector zero p i x =
     (let b = vec_elems x;
          p' = vec_Expand zero p i (length b)
      in if i + length b \<le> vec_Cap p'
         then let arr = copy_at (vec_elems p' @ vec_spare p') i b
              in Inr \<lparr>vec_elems = take (vec_Len p') arr, vec_spare = drop (vec_Len p') arr\<rparr>
         else Inl (Panic ''slice bounds out of range''))"

text \<open>
  \<^verbatim>\<open>Cut\<close>: the index \<^verbatim>\<open>m := n - (j - i)\<close> can be negative, or beyond the length when \<open>j < i\<close>;
  the slice expressions check \<open>i \<le> m \<le> cap\<close> and \<open>j \<le> n\<close>.
\<close>

definition vec_Cut :: "'a \<Rightarrow> 'a vec \<Rightarrow> nat \<Rightarrow> nat \<Rightarrow> 'a vec go" where
  "vec_Cut zero p i j =
     (let n = vec_Len p;
          m = n + i - j;
          arr = vec_elems p @ vec_spare p
      in if j \<le> n + i \<and> i \<le> m \<and> m \<le> vec_Cap p \<and> j \<le> n
         then let arr = copy_at arr i (take (m - i) (drop j (take n arr)));
                  arr = copy_at arr m (replicate (n - m) zero)
              in Inr \<lparr>vec_elems = take m arr, vec_spare = drop m arr\<rparr>
         else Inl (Panic ''slice bounds out of range''))"

definition vec_Slice :: "'a \<Rightarrow> 'a vec \<Rightarrow> nat \<Rightarrow> nat \<Rightarrow> 'a vec go" where
  "vec_Slice zero p i j =
     (if j < i then Inl (Panic ''makeslice: len out of range'')
      else let s = vec_realloc zero \<lparr>vec_elems = [], vec_spare = []\<rparr> (j - i) 0
           in if j \<le> vec_Cap p
              then Inr (s\<lparr>vec_elems := copy_at (vec_elems s) 0 (take (j - i) (drop i (vec_elems p @ vec_spare p)))\<rparr>)
              else Inl (Panic ''slice bounds out of range''))"

definition vec_Push :: "'a \<Rightarrow> 'a vec \<Rightarrow> 'a \<Rightarrow> 'a vec go" where
  "vec_Push zero p x = vec_Insert zero p (vec_Len p) x"

definition vec_Pop :: "'a \<Rightarrow> 'a vec \<Rightarrow> ('a vec \<times> 'a) go" where
  "vec_Pop zero p =
     (let a = vec_elems p
      in if a = [] then Inl (Panic ''index out of range'')
         else let i = length a - 1; x = a ! i; a = a[i := zero]
              in Inr (vec_reslice (p\<lparr>vec_elems := a\<rparr>) i, x))"

definition vec_AppendVector :: "'a \<Rightarrow> 'a vec \<Rightarrow> 'a vec \<Rightarrow> 'a vec go" where
  "vec_AppendVector zero p x = vec_InsertVector zero p (vec_Len p) x"

definition vec_Swap :: "'a vec \<Rightarrow> nat \<Rightarrow> nat \<Rightarrow> 'a vec" where
  "vec_Swap p i j = p\<lparr>vec_elems := swap_elems (vec_elems p) i j\<rparr>"

definition vec_Less :: "('a \<Rightarrow> 'a \<Rightarrow> bool) \<Rightarrow> 'a vec \<Rightarrow> nat \<Rightarrow> nat \<Rightarrow> bool" where
  "vec_Less lt p i j = lt (vec_elems p ! i) (vec_elems p ! j)"

text \<open>\<^verbatim>\<open>Do\<close> with a function that updates a state.\<close>

definition vec_Do :: "'a vec \<Rightarrow> ('a \<Rightarrow> 's \<Rightarrow> 's) \<Rightarrow> 's \<Rightarrow> 's" where
  "vec_Do p f s = fold f (vec_elems p) s"

subsection \<open>The invariant of the spare part\<close>

definition vec_clear :: "'a \<Rightarrow> 'a vec \<Rightarrow> bool" where
  "vec_clear zero p \<longleftrightarrow> (\<exists>k. vec_spare p = replicate k zero)"

lemma vec_clear_iff: "vec_clear zero p \<longleftrightarrow> vec_spare p = replicate (length (vec_spare p)) zero"
  unfolding vec_clear_def by (metis length_replicate)

lemmas vec_simps [simp] = vec_Len_def vec_Cap_def

lemma copy_at_0: "length src \<le> length dst \<Longrightarrow> copy_at dst 0 src = src @ drop (length src) dst"
  by (simp add: copy_at_eq)

lemma elems_realloc:
  "vec_elems (vec_realloc zero p len capacity) =
     take len (vec_elems p) @ replicate (len - vec_Len p) zero"
  by (simp add: vec_realloc_def Let_def copy_at_0 min_def)

lemma clear_realloc: "vec_clear zero (vec_realloc zero p len capacity)"
  by (auto simp: vec_realloc_def vec_clear_def Let_def)

lemma vec_hole_eq:
  assumes "i \<le> length xs" and "length ys = n"
  shows "vec_hole i n (length xs) (xs @ ys) = take (i + n) (xs @ ys) @ drop i xs"
proof -
  have "fold (\<lambda>j a. a[j + n := a ! j]) (rev [k..<length xs]) (xs @ ys) = take (k + n) (xs @ ys) @ drop k xs"
    if "k \<le> length xs" for k
    using that
  proof (induction "length xs - k" arbitrary: k)
    case 0
    then show ?case using assms(2) by simp
  next
    case (Suc d)
    then have k: "k < length xs" by simp
    let ?a = "take (Suc k + n) (xs @ ys) @ drop (Suc k) xs"
    have "fold (\<lambda>j a. a[j + n := a ! j]) (rev [Suc k..<length xs]) (xs @ ys) = ?a"
      using Suc k by simp
    then have "fold (\<lambda>j a. a[j + n := a ! j]) (rev [k..<length xs]) (xs @ ys) = ?a[k + n := ?a ! k]"
      using k by (simp add: upt_conv_Cons)
    also have "?a ! k = xs ! k" using k assms(2) by (simp add: nth_append)
    also have "?a[k + n := xs ! k] = take (k + n) (xs @ ys) @ xs ! k # drop (Suc k) xs"
    proof -
      have "k + n < length (xs @ ys)" using k assms(2) by simp
      then have "take (Suc k + n) (xs @ ys) = take (k + n) (xs @ ys) @ [(xs @ ys) ! (k + n)]"
        and "length (take (k + n) (xs @ ys)) = k + n"
        by (simp_all only: add_Suc take_Suc_conv_app_nth length_take min_def) simp
      then show ?thesis by (simp only: list_update_append append_assoc) simp
    qed
    also have "\<dots> = take (k + n) (xs @ ys) @ drop k xs"
      using k by (simp add: Cons_nth_drop_Suc)
    finally show ?case .
  qed
  then show ?thesis using assms(1) by (simp add: vec_hole_def)
qed

lemma vec_hole_length [simp]: "length (vec_hole i n len0 a) = length a"
proof -
  have "length (fold (\<lambda>j a. a[j + n := a ! j]) js a) = length a" for js
    by (induction js arbitrary: a) simp_all
  then show ?thesis by (simp add: vec_hole_def)
qed

text \<open>
  \<^verbatim>\<open>Expand\<close> keeps the elements before and after the hole; the hole holds old values, but at
  the end of a vector it holds zero values.
\<close>

lemma Expand_elems:
  assumes "i \<le> vec_Len p"
  shows "\<exists>h. length h = n \<and> vec_elems (vec_Expand zero p i n) = take i (vec_elems p) @ h @ drop i (vec_elems p)"
    and "vec_clear zero p \<Longrightarrow> vec_clear zero (vec_Expand zero p i n)"
    and "vec_clear zero p \<Longrightarrow> i = vec_Len p \<Longrightarrow> vec_elems (vec_Expand zero p i n) = vec_elems p @ replicate n zero"
proof -
  let ?xs = "vec_elems p"
  obtain a ys where a: "vec_elems a = ?xs @ ys" "length ys = n"
      "vec_Expand zero p i n = a\<lparr>vec_elems := vec_hole i n (length ?xs) (?xs @ ys)\<rparr>"
    and clear: "vec_clear zero p \<Longrightarrow> vec_clear zero a \<and> ys = replicate n zero"
  proof (cases "vec_Len p + n \<le> vec_Cap p")
    case True
    let ?a = "\<lparr>vec_elems = ?xs @ take n (vec_spare p), vec_spare = drop n (vec_spare p)\<rparr>"
    have "vec_clear zero ?a \<and> take n (vec_spare p) = replicate n zero" if "vec_clear zero p"
      using that True by (auto simp: vec_clear_def)
    then show ?thesis
      using True by (intro that [of ?a "take n (vec_spare p)"]) (simp_all add: vec_Expand_def Let_def vec_clear_def)
  next
    case False
    let ?a = "vec_realloc zero p (length ?xs + n) 
      (if vec_Cap p * 2 < length ?xs + n then length ?xs + n else vec_Cap p * 2)"
    have "vec_elems ?a = ?xs @ replicate n zero" by (simp add: elems_realloc)
    moreover have "vec_Expand zero p i n = ?a\<lparr>vec_elems := vec_hole i n (length ?xs) (?xs @ replicate n zero)\<rparr>"
      using False by (simp add: vec_Expand_def Let_def elems_realloc)
    ultimately show ?thesis
      by (intro that [of ?a "replicate n zero"]) (simp_all add: clear_realloc)
  qed
  have hole: "vec_elems (vec_Expand zero p i n) = take (i + n) (?xs @ ys) @ drop i ?xs"
    using a vec_hole_eq [of i ?xs ys n] assms by simp
  have "take (i + n) (?xs @ ys) = take i ?xs @ take n (drop i (?xs @ ys))"
    by (subst take_add) (use assms in simp)
  then show "\<exists>h. length h = n \<and> vec_elems (vec_Expand zero p i n) = take i ?xs @ h @ drop i ?xs"
    using hole assms a(2) by (intro exI [of _ "take n (drop i (?xs @ ys))"]) simp
  show "vec_clear zero (vec_Expand zero p i n)" if "vec_clear zero p"
    using clear [OF that] a(3) by (simp add: vec_clear_def)
  show "vec_elems (vec_Expand zero p i n) = ?xs @ replicate n zero" if "vec_clear zero p" "i = vec_Len p"
    using clear [OF that(1)] that(2) hole a(2) by simp
qed

subsection \<open>Every operation refines its list function\<close>

text \<open>A result that is a vector with the given elements and a clear spare part.\<close>

definition vec_is :: "'a \<Rightarrow> 'a vec go \<Rightarrow> 'a list \<Rightarrow> bool" where
  "vec_is zero r xs \<longleftrightarrow> (\<exists>p. r = Inr p \<and> vec_elems p = xs \<and> vec_clear zero p)"

lemma Insert_refines:
  assumes "vec_clear zero p" and "i \<le> vec_Len p"
  shows "vec_is zero (vec_Insert zero p i x) (take i (vec_elems p) @ x # drop i (vec_elems p))"
proof -
  obtain h where h: "length h = 1"
      "vec_elems (vec_Expand zero p i 1) = take i (vec_elems p) @ h @ drop i (vec_elems p)"
    using Expand_elems(1) [OF assms(2)] by blast
  then obtain y where "h = [y]" by (cases h) auto
  then have "vec_Insert zero p i x =
      Inr ((vec_Expand zero p i 1)\<lparr>vec_elems := take i (vec_elems p) @ x # drop i (vec_elems p)\<rparr>)"
    using h(2) assms(2) by (simp add: vec_Insert_def vec_Set_def list_update_append)
  then show ?thesis
    using Expand_elems(2) [OF assms(2,1)] by (auto simp: vec_is_def vec_clear_def)
qed

lemma vec_Push_elems: "\<exists>p'. vec_Push zero p x = Inr p' \<and> vec_elems p' = vec_elems p @ [x]"
proof -
  obtain h where h: "length h = 1" "vec_elems (vec_Expand zero p (vec_Len p) 1) = vec_elems p @ h"
    using Expand_elems(1) [of "vec_Len p" p 1 zero] by auto
  then obtain y where "h = [y]" by (cases h) auto
  with h(2) show ?thesis by (simp add: vec_Push_def vec_Insert_def vec_Set_def)
qed

lemma Delete_refines:
  assumes "vec_clear zero p" and "i < vec_Len p"
  shows "vec_is zero (vec_Delete zero p i) (take i (vec_elems p) @ drop (i + 1) (vec_elems p))"
proof -
  let ?a = "vec_elems p"
  obtain b z where b: "copy_at ?a i (drop (i + 1) ?a) = b @ [z]" "b = take i ?a @ drop (i + 1) ?a"
    using assms(2) by (simp add: copy_at_eq Cons_nth_drop_Suc [symmetric])
  then have "length b = length ?a - 1" using assms(2) by simp
  then show ?thesis
    using assms b by (auto simp: vec_Delete_def vec_is_def vec_reslice_def vec_clear_def Let_def
        list_update_append simp flip: replicate_Suc)
qed

lemma InsertVector_refines:
  assumes "vec_clear zero p" and "i \<le> vec_Len p"
  shows "vec_is zero (vec_InsertVector zero p i x) (take i (vec_elems p) @ vec_elems x @ drop i (vec_elems p))"
proof -
  let ?p = "vec_Expand zero p i (length (vec_elems x))"
  obtain h where h: "length h = length (vec_elems x)"
      "vec_elems ?p = take i (vec_elems p) @ h @ drop i (vec_elems p)"
    using Expand_elems(1) [OF assms(2)] by blast
  have "copy_at (vec_elems ?p @ vec_spare ?p) i (vec_elems x) =
      (take i (vec_elems p) @ vec_elems x @ drop i (vec_elems p)) @ vec_spare ?p"
    using h assms(2) by (simp add: copy_at_eq)
  then have "vec_InsertVector zero p i x =
      Inr \<lparr>vec_elems = take i (vec_elems p) @ vec_elems x @ drop i (vec_elems p), vec_spare = vec_spare ?p\<rparr>"
    using h assms(2) by (simp add: vec_InsertVector_def Let_def)
  then show ?thesis
    using Expand_elems(2) [OF assms(2,1)] by (auto simp: vec_is_def vec_clear_def)
qed

lemma Cut_refines:
  assumes "vec_clear zero p" and "i \<le> j" and "j \<le> vec_Len p"
  shows "vec_is zero (vec_Cut zero p i j) (take i (vec_elems p) @ drop j (vec_elems p))"
proof -
  let ?xs = "vec_elems p" and ?n = "vec_Len p" and ?m = "vec_Len p + i - j"
  let ?t = "drop j ?xs"
  have t: "length ?t = ?m - i" "i \<le> ?m" "?m \<le> ?n" using assms by simp_all
  define arr where "arr = copy_at (?xs @ vec_spare p) i ?t"
  have "i + length ?t = ?m" using assms by simp
  then have arr: "take ?m arr = take i ?xs @ ?t" "length arr = ?n + length (vec_spare p)"
    using t assms take_copy_at [of i ?t "?xs @ vec_spare p"] by (simp_all add: arr_def add.commute)
  have spare: "drop ?n arr = vec_spare p"
    using t assms by (simp add: arr_def copy_at_eq)
  have "vec_Cut zero p i j = Inr \<lparr>vec_elems = take ?m arr, vec_spare = replicate (?n - ?m) zero @ vec_spare p\<rparr>"
    using assms t arr(2) spare
    by (simp add: vec_Cut_def Let_def arr_def [symmetric] copy_at_eq)
  moreover have "\<exists>k. replicate (?n - ?m) zero @ vec_spare p = replicate k zero"
    using assms(1) by (auto simp: vec_clear_def simp flip: replicate_add)
  ultimately show ?thesis using arr(1) by (simp add: vec_is_def vec_clear_def)
qed

lemma Resize_refines:
  assumes "vec_clear zero p"
  shows "vec_is zero (Inr (vec_Resize zero p len capacity))
    (take len (vec_elems p) @ replicate (len - vec_Len p) zero)"
proof -
  consider "len > vec_Cap p \<or> capacity > vec_Cap p"
    | "\<not> (len > vec_Cap p \<or> capacity > vec_Cap p)" "len < vec_Len p"
    | "\<not> (len > vec_Cap p \<or> capacity > vec_Cap p)" "vec_Len p \<le> len" by linarith
  then show ?thesis
  proof cases
    case 1
    then have eq: "vec_Resize zero p len capacity = vec_reslice (vec_realloc zero p len capacity) len"
      by (simp add: vec_Resize_def del: vec_simps)
    obtain k where "vec_spare (vec_realloc zero p len capacity) = replicate k zero"
      using clear_realloc [of zero p len capacity] by (auto simp: vec_clear_def)
    then show ?thesis
      by (auto simp: eq vec_is_def vec_reslice_def elems_realloc vec_clear_def Let_def)
  next
    case 2
    then show ?thesis
      using assms by (auto simp: vec_Resize_def vec_is_def vec_reslice_def vec_clear_from_def
          vec_clear_def Let_def simp flip: replicate_add)
  next
    case 3
    then show ?thesis
      using assms by (auto simp: vec_Resize_def vec_is_def vec_reslice_def vec_clear_def Let_def min_def)
  qed
qed

lemma Pop_refines:
  assumes "vec_clear zero p" and "vec_Len p \<noteq> 0"
  shows "\<exists>p'. vec_Pop zero p = Inr (p', last (vec_elems p)) \<and> vec_elems p' = butlast (vec_elems p) \<and>
    vec_clear zero p'"
proof -
  obtain xs x where "vec_elems p = xs @ [x]" using assms(2) by (cases "vec_elems p" rule: rev_cases) auto
  then show ?thesis
    using assms by (auto simp: vec_Pop_def vec_reslice_def vec_clear_def Let_def simp flip: replicate_Suc)
qed

lemma Slice_refines:
  assumes "i \<le> j" and "j \<le> vec_Len p"
  shows "vec_is zero (vec_Slice zero p i j) (take (j - i) (drop i (vec_elems p)))"
  using assms clear_realloc [of zero "\<lparr>vec_elems = [], vec_spare = []\<rparr>" "j - i" 0]
  by (auto simp: vec_Slice_def vec_is_def Let_def elems_realloc copy_at_0 vec_clear_def)





end
