(* ===== verification/Heap.thy ===== *)
theory Heap
  imports Vector
begin

text \<open>
  Package \<^verbatim>\<open>container/heap\<close>: a binary heap kept in any collection with the methods of
  \<^verbatim>\<open>heap.Interface\<close>, which are those of \<^verbatim>\<open>sort.Interface\<close> with \<^verbatim>\<open>Push\<close> and \<^verbatim>\<open>Pop\<close> at the end.
  The locale \<open>heap_iface\<close> extends the contract of \<^verbatim>\<open>sort.Interface\<close> by the laws of the two
  methods and proves the heap invariant of every operation and the specification of a
  priority queue. It is interpreted on \<^verbatim>\<open>vector.Vector\<close>.

  \<^verbatim>\<open>Pop\<close> on an empty heap calls \<^verbatim>\<open>Swap(0, -1)\<close> and \<^verbatim>\<open>Remove\<close> with an index out of range swaps
  elements that do not exist: both are panics of the collection's methods.
\<close>

record ('s, 'a) heap_ops = "'s sort_ops" +
  coll_Push :: "'s \<Rightarrow> 'a \<Rightarrow> 's"
  coll_Pop :: "'s \<Rightarrow> 's \<times> 'a"

subsection \<open>The code\<close>

text \<open>The loop of \<^verbatim>\<open>up\<close>; the parent of index 0 is \<^verbatim>\<open>(0-1)/2\<close>, which is 0 in Go too.\<close>

function heap_up :: "('s, 'a) heap_ops \<Rightarrow> nat \<Rightarrow> 's \<Rightarrow> 's" where
  "heap_up ops j h =
     (let i = (j - 1) div 2
      in if i = j \<or> sort_Less ops h i j then h else heap_up ops i (sort_Swap ops h i j))"
  by pat_completeness auto
termination
  by (relation "measure (\<lambda>(ops, j, h). j)") auto

function heap_down :: "('s, 'a) heap_ops \<Rightarrow> nat \<Rightarrow> nat \<Rightarrow> 's \<Rightarrow> 's" where
  "heap_down ops i n h =
     (let j1 = 2 * i + 1
      in if j1 \<ge> n then h
         else let j = (if j1 + 1 < n \<and> \<not> sort_Less ops h j1 (j1 + 1) then j1 + 1 else j1)
              in if sort_Less ops h i j then h else heap_down ops j n (sort_Swap ops h i j))"
  by pat_completeness auto
termination
  by (relation "measure (\<lambda>(ops, i, n, h). n - i)") (auto split: if_splits)

declare heap_up.simps [simp del] heap_down.simps [simp del]

definition heap_Init :: "('s, 'a) heap_ops \<Rightarrow> 's \<Rightarrow> 's" where
  "heap_Init ops h =
     (let n = sort_Len ops h in fold (\<lambda>i h. heap_down ops i n h) (rev [0..<n div 2]) h)"

definition heap_Push :: "('s, 'a) heap_ops \<Rightarrow> 's \<Rightarrow> 'a \<Rightarrow> 's" where
  "heap_Push ops h x = (let h = coll_Push ops h x in heap_up ops (sort_Len ops h - 1) h)"

definition heap_Pop :: "('s, 'a) heap_ops \<Rightarrow> 's \<Rightarrow> ('s \<times> 'a) go" where
  "heap_Pop ops h =
     (if sort_Len ops h = 0 then Inl (Panic ''index out of range'')
      else let n = sort_Len ops h - 1;
               h = sort_Swap ops h 0 n;
               h = heap_down ops 0 n h
           in Inr (coll_Pop ops h))"

definition heap_Remove :: "('s, 'a) heap_ops \<Rightarrow> 's \<Rightarrow> nat \<Rightarrow> ('s \<times> 'a) go" where
  "heap_Remove ops h i =
     (if sort_Len ops h \<le> i then Inl (Panic ''index out of range'')
      else let n = sort_Len ops h - 1;
               h = (if n \<noteq> i then heap_up ops i (heap_down ops i n (sort_Swap ops h i n)) else h)
           in Inr (coll_Pop ops h))"

subsection \<open>The heap invariant on a list\<close>

abbreviation parent :: "nat \<Rightarrow> nat" where
  "parent j \<equiv> (j - 1) div 2"

text \<open>
  The invariant of the package comment, for the children of the nodes from \<open>k\<close> on. Its two
  variants allow a violation below the node \<open>i\<close> (while an element sinks) and above the node
  \<open>j\<close> (while one rises); in both, the children of that node are in order with its parent.
\<close>

definition heap_from :: "('a \<Rightarrow> 'a \<Rightarrow> bool) \<Rightarrow> nat \<Rightarrow> nat \<Rightarrow> 'a list \<Rightarrow> bool" where
  "heap_from lt k n xs \<longleftrightarrow> (\<forall>m. 0 < m \<and> m < n \<and> k \<le> parent m \<longrightarrow> \<not> lt (xs ! m) (xs ! parent m))"

definition sinking :: "('a \<Rightarrow> 'a \<Rightarrow> bool) \<Rightarrow> nat \<Rightarrow> nat \<Rightarrow> nat \<Rightarrow> 'a list \<Rightarrow> bool" where
  "sinking lt k i n xs \<longleftrightarrow>
     (\<forall>m. 0 < m \<and> m < n \<and> k \<le> parent m \<and> parent m \<noteq> i \<longrightarrow> \<not> lt (xs ! m) (xs ! parent m)) \<and>
     (\<forall>m. 0 < m \<and> m < n \<and> parent m = i \<and> 0 < i \<and> k \<le> parent i \<longrightarrow> \<not> lt (xs ! m) (xs ! parent i))"

definition rising :: "('a \<Rightarrow> 'a \<Rightarrow> bool) \<Rightarrow> nat \<Rightarrow> nat \<Rightarrow> 'a list \<Rightarrow> bool" where
  "rising lt j n xs \<longleftrightarrow>
     (\<forall>m. 0 < m \<and> m < n \<and> m \<noteq> j \<longrightarrow> \<not> lt (xs ! m) (xs ! parent m)) \<and>
     (\<forall>m. 0 < m \<and> m < n \<and> parent m = j \<and> 0 < j \<longrightarrow> \<not> lt (xs ! m) (xs ! parent j))"

abbreviation is_heap :: "('a \<Rightarrow> 'a \<Rightarrow> bool) \<Rightarrow> 'a list \<Rightarrow> bool" where
  "is_heap lt xs \<equiv> heap_from lt 0 (length xs) xs"

lemma parent_less: "0 < m \<Longrightarrow> parent m < m"
  by simp

lemma parent_cases: "0 < m \<Longrightarrow> parent m = i \<longleftrightarrow> m = 2 * i + 1 \<or> m = 2 * i + 2"
  by auto

subsection \<open>The contract of heap.Interface\<close>

locale heap_iface = sort_iface "sort_ops.truncate ops" elems lt
  for ops :: "('s, 'a) heap_ops" and elems :: "'s \<Rightarrow> 'a list" and lt :: "'a \<Rightarrow> 'a \<Rightarrow> bool" +
  assumes Push_elems: "elems (coll_Push ops s x) = elems s @ [x]"
    and Pop_elems: "elems s \<noteq> [] \<Longrightarrow>
      snd (coll_Pop ops s) = last (elems s) \<and> elems (fst (coll_Pop ops s)) = butlast (elems s)"
begin

lemma heap_Len: "sort_Len ops s = length (elems s)"
  using Len_elems [of s] by (simp add: sort_ops.truncate_def)

lemma heap_Less:
  "i < length (elems s) \<Longrightarrow> j < length (elems s) \<Longrightarrow> sort_Less ops s i j \<longleftrightarrow> lt (elems s ! i) (elems s ! j)"
  using Less_elems [of i s j] by (simp add: sort_ops.truncate_def)

lemma heap_Swap:
  "i < length (elems s) \<Longrightarrow> j < length (elems s) \<Longrightarrow>
   elems (sort_Swap ops s i j) = swap_elems (elems s) i j"
  using Swap_elems [of i s j] by (simp add: sort_ops.truncate_def)

lemma sink_stop:
  assumes inv: "sinking lt k i n xs" and ok: "\<And>m. 0 < m \<Longrightarrow> m < n \<Longrightarrow> parent m = i \<Longrightarrow> \<not> lt (xs ! m) (xs ! i)"
  shows "heap_from lt k n xs"
  unfolding heap_from_def
proof (intro allI impI)
  fix m
  assume m: "0 < m \<and> m < n \<and> k \<le> parent m"
  show "\<not> lt (xs ! m) (xs ! parent m)"
    using inv ok [of m] m by (cases "parent m = i") (simp_all add: sinking_def)
qed

lemma sink_step:
  assumes inv: "sinking lt k i n xs" and n: "n \<le> length xs" and j: "0 < j" "j < n" "parent j = i"
    and le: "\<not> lt (xs ! i) (xs ! j)"
    and other: "\<And>m. 0 < m \<Longrightarrow> m < n \<Longrightarrow> parent m = i \<Longrightarrow> \<not> lt (xs ! m) (xs ! j)"
  shows "sinking lt k j n (swap_elems xs i j)"
proof -
  have ij: "i < j" using parent_less [OF j(1)] j(3) by simp
  then have nth: "swap_elems xs i j ! q = (if q = i then xs ! j else if q = j then xs ! i else xs ! q)" for q
    using j n by (simp add: nth_swap_elems)
  have "\<not> lt (swap_elems xs i j ! m) (swap_elems xs i j ! parent m)"
    if m: "0 < m" "m < n" "k \<le> parent m" "parent m \<noteq> j" for m
  proof -
    have pm: "parent m < m" using m(1) by (rule parent_less)
    consider "m = j" | "m \<noteq> j" "parent m = i" | "m = i" | "m \<noteq> j" "parent m \<noteq> i" "m \<noteq> i" by blast
    then show ?thesis
    proof cases
      case 1
      then show ?thesis using j ij le by (simp add: nth)
    next
      case 2
      then show ?thesis using other [OF m(1,2)] pm by (simp add: nth)
    next
      case 3
      then have "\<not> lt (xs ! j) (xs ! parent i)" using inv j m unfolding sinking_def by blast
      then show ?thesis using 3 pm ij by (simp add: nth)
    next
      case 4
      then have "\<not> lt (xs ! m) (xs ! parent m)" using inv m unfolding sinking_def by blast
      then show ?thesis using 4 m(4) by (simp add: nth)
    qed
  qed
  moreover have "\<not> lt (swap_elems xs i j ! m) (swap_elems xs i j ! parent j)"
    if m: "0 < m" "m < n" "parent m = j" "k \<le> parent j" for m
  proof -
    have "j < m" using parent_less [OF m(1)] m(3) by simp
    moreover have "\<not> lt (xs ! m) (xs ! parent m)"
      using inv m j ij unfolding sinking_def by (metis less_imp_le less_irrefl order_trans)
    ultimately show ?thesis using m j ij by (simp add: nth)
  qed
  ultimately show ?thesis unfolding sinking_def by blast
qed

lemma heap_down_heap:
  assumes "sinking lt k i n (elems h)" and "n \<le> length (elems h)"
  shows "heap_from lt k n (elems (heap_down ops i n h)) \<and> perm_range i n (elems h) (elems (heap_down ops i n h))"
  using assms
proof (induction "n - i" arbitrary: i h rule: less_induct)
  case less
  let ?xs = "elems h" and ?j1 = "2 * i + 1"
  note step = heap_down.simps [of ops i n h]
  show ?case
  proof (cases "?j1 < n")
    case False
    then have "heap_from lt k n ?xs"
      using less.prems by (intro sink_stop) auto
    with False show ?thesis by (simp add: step)
  next
    case True
    define j where "j = (if ?j1 + 1 < n \<and> \<not> lt (?xs ! ?j1) (?xs ! (?j1 + 1)) then ?j1 + 1 else ?j1)"
    have j: "0 < j" "j < n" "parent j = i" "i < j" using True by (auto simp: j_def)
    have other: "\<not> lt (?xs ! m) (?xs ! j)" if "0 < m" "m < n" "parent m = i" for m
    proof -
      have "m = ?j1 \<or> m = ?j1 + 1" using that parent_cases [of m i] by simp
      then show ?thesis
        using less_irrefl that(2) less_asym [of "?xs ! ?j1" "?xs ! (?j1 + 1)"] by (auto simp: j_def)
    qed
    have lens: "i < length ?xs" "j < length ?xs" "?j1 < length ?xs" using j less.prems True by simp_all
    have eq: "heap_down ops i n h = (if lt (?xs ! i) (?xs ! j) then h else heap_down ops j n (sort_Swap ops h i j))"
    proof -
      have "(if ?j1 + 1 < n \<and> \<not> sort_Less ops h ?j1 (?j1 + 1) then ?j1 + 1 else ?j1) = j"
        using lens less.prems by (auto simp: j_def heap_Less)
      then show ?thesis using True lens by (simp only: step Let_def heap_Less) simp
    qed
    show ?thesis
    proof (cases "lt (?xs ! i) (?xs ! j)")
      case stop: True
      have "\<not> lt (?xs ! m) (?xs ! i)" if "0 < m" "m < n" "parent m = i" for m
        using other [OF that] stop less_asym less_trans [of "?xs ! m" "?xs ! i" "?xs ! j"] by blast
      with less.prems stop show ?thesis by (simp add: eq sink_stop)
    next
      case False
      let ?h = "sort_Swap ops h i j"
      have ys: "elems ?h = swap_elems ?xs i j" using lens by (simp add: heap_Swap)
      have "sinking lt k j n (elems ?h)"
        unfolding ys using less.prems j False other by (intro sink_step) simp_all
      then have "heap_from lt k n (elems (heap_down ops j n ?h)) \<and>
          perm_range j n (elems ?h) (elems (heap_down ops j n ?h))"
        using j less.prems ys by (intro less.hyps) auto
      moreover have "perm_range i n ?xs (elems ?h)"
        unfolding ys using j less.prems by (intro perm_range_swap) simp_all
      ultimately show ?thesis
        using False j perm_range_trans perm_range_widen [of j n "elems ?h" _ i n] by (simp add: eq) blast
    qed
  qed
qed

lemma rise_step:
  assumes inv: "rising lt j n xs" and n: "n \<le> length xs" and j: "0 < j" "j < n"
    and le: "\<not> lt (xs ! parent j) (xs ! j)"
  shows "rising lt (parent j) n (swap_elems xs (parent j) j)"
proof -
  define i where "i = parent j"
  have pj: "parent j = i" by (simp only: i_def)
  have ij: "i < j" unfolding i_def using j(1) by (rule parent_less)
  then have nth: "swap_elems xs i j ! q = (if q = i then xs ! j else if q = j then xs ! i else xs ! q)" for q
    using j n by (simp add: nth_swap_elems)
  have sib: "\<not> lt (xs ! m) (xs ! j)" if "0 < m" "m < n" "m \<noteq> j" "parent m = i" for m
    using inv that le not_less_trans [of "xs ! i" "xs ! j" "xs ! m"] unfolding rising_def i_def by metis
  have "\<not> lt (swap_elems xs i j ! m) (swap_elems xs i j ! parent m)" if m: "0 < m" "m < n" "m \<noteq> i" for m
  proof -
    have pm: "parent m < m" using m(1) by (rule parent_less)
    consider "m = j" | "m \<noteq> j" "parent m = i" | "m \<noteq> j" "parent m = j" | "m \<noteq> j" "parent m \<noteq> i" "parent m \<noteq> j"
      by blast
    then show ?thesis
    proof cases
      case 1
      then show ?thesis using ij le pj by (simp add: nth)
    next
      case 2
      then show ?thesis using sib m pm by (simp add: nth)
    next
      case 3
      then have "\<not> lt (xs ! m) (xs ! i)" using inv m j unfolding rising_def i_def by blast
      then show ?thesis using 3 m ij by (simp add: nth)
    next
      case 4
      then have "\<not> lt (xs ! m) (xs ! parent m)" using inv m unfolding rising_def by blast
      then show ?thesis using 4 m by (simp add: nth)
    qed
  qed
  moreover have "\<not> lt (swap_elems xs i j ! m) (swap_elems xs i j ! parent i)"
    if m: "0 < m" "m < n" "parent m = i" "0 < i" for m
  proof -
    have pi: "parent i < i" using m(4) by (rule parent_less)
    have "i < n" "i \<noteq> j" using ij j by simp_all
    then have gp: "\<not> lt (xs ! i) (xs ! parent i)" using inv m(4) unfolding rising_def by blast
    have "\<not> lt (xs ! m) (xs ! parent i)" if "m \<noteq> j"
      using inv m that gp not_less_trans [of "xs ! i" "xs ! parent i" "xs ! m"] unfolding rising_def by metis
    moreover have "m \<noteq> i" using parent_less [OF m(1)] m(3) by simp
    ultimately show ?thesis using gp pi ij by (simp add: nth)
  qed
  ultimately show ?thesis unfolding i_def [symmetric] rising_def by blast
qed

lemma heap_up_heap:
  assumes "rising lt j n (elems h)" and "j < n" and "n \<le> length (elems h)"
  shows "heap_from lt 0 n (elems (heap_up ops j h)) \<and> perm_range 0 n (elems h) (elems (heap_up ops j h))"
  using assms
proof (induction j arbitrary: h rule: less_induct)
  case (less j)
  let ?xs = "elems h"
  note step = heap_up.simps [of ops j h]
  show ?case
  proof (cases "j = 0 \<or> lt (?xs ! parent j) (?xs ! j)")
    case True
    then have "heap_from lt 0 n ?xs"
      using less.prems less_asym unfolding heap_from_def rising_def by (metis less_nat_zero_code)
    moreover have "heap_up ops j h = h"
      using True less.prems by (auto simp: step heap_Less)
    ultimately show ?thesis by simp
  next
    case False
    let ?h = "sort_Swap ops h (parent j) j"
    have pj: "parent j < j" using False by (intro parent_less) simp
    have ys: "elems ?h = swap_elems ?xs (parent j) j" using pj less.prems by (simp add: heap_Swap)
    have "rising lt (parent j) n (elems ?h)"
      unfolding ys using less.prems False by (intro rise_step) simp_all
    then have "heap_from lt 0 n (elems (heap_up ops (parent j) ?h)) \<and>
        perm_range 0 n (elems ?h) (elems (heap_up ops (parent j) ?h))"
      using pj less.prems ys by (intro less.IH) simp_all
    moreover have perm: "perm_range 0 n ?xs (elems ?h)"
      unfolding ys using pj less.prems by (intro perm_range_swap) simp_all
    moreover have "heap_up ops j h = heap_up ops (parent j) ?h"
      using False pj less.prems by (simp add: step heap_Less Let_def)
    ultimately show ?thesis using perm_range_trans [OF perm] by simp
  qed
qed

lemma heap_root_min:
  assumes "heap_from lt 0 n xs" and "m < n"
  shows "\<not> lt (xs ! m) (xs ! 0)"
  using assms(2)
proof (induction m rule: less_induct)
  case (less m)
  show ?case
  proof (cases "m = 0")
    case True
    then show ?thesis using less_irrefl by simp
  next
    case False
    then have "\<not> lt (xs ! m) (xs ! parent m)" using assms(1) less.prems by (simp add: heap_from_def)
    moreover have "\<not> lt (xs ! parent m) (xs ! 0)"
      using False less by (intro less.IH) simp_all
    ultimately show ?thesis using not_less_trans by blast
  qed
qed

lemma Init_heap:
  "is_heap lt (elems (heap_Init ops h)) \<and> mset (elems (heap_Init ops h)) = mset (elems h)"
proof -
  let ?n = "length (elems h)"
  let ?f = "\<lambda>k. fold (\<lambda>i h. heap_down ops i ?n h) (rev [k..<?n div 2]) h"
  have *: "heap_from lt k ?n (elems (?f k)) \<and> perm_range 0 ?n (elems h) (elems (?f k))" if "k \<le> ?n div 2" for k
    using that
  proof (induction "?n div 2 - k" arbitrary: k)
    case 0
    then show ?case by (auto simp: heap_from_def)
  next
    case (Suc d)
    then have k: "k < ?n div 2" by simp
    have IH: "heap_from lt (Suc k) ?n (elems (?f (Suc k)))" "perm_range 0 ?n (elems h) (elems (?f (Suc k)))"
      using Suc.hyps(1) [of "Suc k"] Suc.hyps(2) k by simp_all
    have "sinking lt k k ?n (elems (?f (Suc k)))"
      using IH(1) unfolding sinking_def heap_from_def by (auto simp: Suc_le_eq le_less)
    then have "heap_from lt k ?n (elems (heap_down ops k ?n (?f (Suc k)))) \<and>
        perm_range k ?n (elems (?f (Suc k))) (elems (heap_down ops k ?n (?f (Suc k))))"
      using perm_range_length [OF IH(2)] by (intro heap_down_heap) simp_all
    moreover have "?f k = heap_down ops k ?n (?f (Suc k))" using k by (simp add: upt_conv_Cons)
    ultimately show ?case
      using perm_range_trans [OF IH(2) perm_range_widen [of k ?n _ _ 0 ?n]] by simp
  qed
  have "heap_Init ops h = ?f 0" by (simp add: heap_Init_def heap_Len Let_def)
  with * [of 0] show ?thesis using perm_range_length by (fastforce simp: perm_range_def)
qed

lemma Push_heap:
  assumes "is_heap lt (elems h)"
  shows "is_heap lt (elems (heap_Push ops h x)) \<and> mset (elems (heap_Push ops h x)) = add_mset x (mset (elems h))"
proof -
  let ?xs = "elems h @ [x]" and ?n = "length (elems h)"
  have "parent m \<noteq> ?n" and "parent m < ?n" if "0 < m" "m < Suc ?n" for m
    using parent_less [OF that(1)] that(2) by linarith+
  then have "rising lt ?n (Suc ?n) ?xs"
    using assms unfolding rising_def heap_from_def by (auto simp: nth_append less_Suc_eq)
  then have "heap_from lt 0 (Suc ?n) (elems (heap_up ops ?n (coll_Push ops h x))) \<and>
      perm_range 0 (Suc ?n) ?xs (elems (heap_up ops ?n (coll_Push ops h x)))"
    using heap_up_heap [of ?n "Suc ?n" "coll_Push ops h x"] by (simp add: Push_elems)
  moreover have "heap_Push ops h x = heap_up ops ?n (coll_Push ops h x)"
    by (simp add: heap_Push_def heap_Len Push_elems)
  ultimately show ?thesis by (auto simp: perm_range_def)
qed

text \<open>The last step of \<^verbatim>\<open>Pop\<close> and \<^verbatim>\<open>Remove\<close>: the element moved to the end leaves.\<close>

lemma coll_Pop_heap:
  assumes "length (elems g) = Suc n" and "heap_from lt 0 n (elems g)" and "mset (elems g) = mset xs"
    and "elems g ! n = x" and p: "coll_Pop ops g = (h', y)"
  shows "y = x \<and> is_heap lt (elems h') \<and> mset xs = add_mset x (mset (elems h'))"
proof -
  have ne: "elems g \<noteq> []" using assms(1) by auto
  have "butlast (elems g) @ [last (elems g)] = elems g" using ne by simp
  moreover have "last (elems g) = x" using assms(1,4) ne by (simp add: last_conv_nth)
  ultimately have mset: "mset (elems g) = add_mset x (mset (butlast (elems g)))"
    by (metis mset_append add_mset_add_single mset_single_iff union_mset_add_mset_right mset.simps)
  have "\<not> lt (butlast (elems g) ! m) (butlast (elems g) ! parent m)" if "0 < m" "m < n" for m
    using assms(1,2) that parent_less [OF that(1)] by (simp add: heap_from_def nth_butlast)
  then have "is_heap lt (butlast (elems g))" using assms(1) by (simp add: heap_from_def)
  with mset Pop_elems [OF ne] p assms(3) \<open>last (elems g) = x\<close> show ?thesis by simp
qed

lemma Pop_heap:
  assumes heap: "is_heap lt (elems h)" and "elems h \<noteq> []"
  shows "\<exists>h'. heap_Pop ops h = Inr (h', elems h ! 0) \<and> is_heap lt (elems h') \<and>
    mset (elems h) = add_mset (elems h ! 0) (mset (elems h')) \<and> (\<forall>y \<in> set (elems h). \<not> lt y (elems h ! 0))"
proof -
  let ?xs = "elems h"
  obtain n where n: "length ?xs = Suc n" using assms(2) by (cases "length ?xs") auto
  let ?h = "sort_Swap ops h 0 n"
  have ys: "elems ?h = swap_elems ?xs 0 n" using n by (simp add: heap_Swap)
  have "sinking lt 0 0 n (elems ?h)"
    using heap n parent_less unfolding sinking_def heap_from_def ys by (auto simp: nth_swap_elems)
  then have d: "heap_from lt 0 n (elems (heap_down ops 0 n ?h))"
      "perm_range 0 n (elems ?h) (elems (heap_down ops 0 n ?h))"
    using heap_down_heap [of 0 0 n ?h] n ys by simp_all
  obtain h' y where p: "coll_Pop ops (heap_down ops 0 n ?h) = (h', y)" by fastforce
  have len: "length (elems (heap_down ops 0 n ?h)) = Suc n"
    using perm_range_length [OF d(2)] ys n by simp
  have "perm_range 0 (Suc n) ?xs (elems ?h)" unfolding ys using n by (intro perm_range_swap) simp_all
  then have mset: "mset (elems (heap_down ops 0 n ?h)) = mset ?xs"
    using d(2) by (simp add: perm_range_def)
  have last: "elems (heap_down ops 0 n ?h) ! n = ?xs ! 0"
    using perm_range_outside [OF d(2), of n] ys n by (simp add: nth_swap_elems)
  have min: "\<forall>y \<in> set ?xs. \<not> lt y (?xs ! 0)"
    using heap_root_min [OF heap] by (auto simp: in_set_conv_nth)
  show ?thesis
    using coll_Pop_heap [OF len d(1) mset last p] min n p
    by (intro exI [of _ h']) (simp add: heap_Pop_def heap_Len Let_def)
qed

lemma heap_rising: "heap_from lt 0 n xs \<Longrightarrow> i < n \<Longrightarrow> rising lt i n xs"
  unfolding rising_def heap_from_def using not_less_trans by (metis le0)

text \<open>
  \<^verbatim>\<open>Remove\<close> from the middle: the last element takes the place of the removed one. It sinks if
  it is not below its new parent; otherwise \<^verbatim>\<open>down\<close> leaves it alone, and it has to rise.
\<close>

lemma remove_down:
  assumes heap: "is_heap lt (elems h)" and n: "length (elems h) = Suc n" and "i < n"
    and g_def: "g = heap_down ops i n (sort_Swap ops h i n)"
  shows "rising lt i n (elems g) \<and> perm_range 0 n (elems (sort_Swap ops h i n)) (elems g)"
proof -
  let ?xs = "elems h" and ?h = "sort_Swap ops h i n"
  have H: "\<not> lt (?xs ! m) (?xs ! parent m)" if "0 < m" "m < Suc n" for m
    using heap that n by (simp add: heap_from_def)
  have ys: "elems ?h = swap_elems ?xs i n" using \<open>i < n\<close> n by (simp add: heap_Swap)
  have nth: "elems ?h ! q = (if q = i then ?xs ! n else ?xs ! q)" if "q < n" for q
    unfolding ys using that \<open>i < n\<close> n by (simp add: nth_swap_elems)
  have gp: "\<not> lt (?xs ! m) (?xs ! parent i)" if "0 < m" "m < n" "parent m = i" "0 < i" for m
    using H [of m] H [of i] that \<open>i < n\<close> not_less_trans [of "?xs ! i" "?xs ! parent i" "?xs ! m"] by auto
  have mi: "m \<noteq> i \<and> parent i \<noteq> i" if "0 < m" "parent m = i" "0 < i" for m
    using parent_less [OF that(1)] parent_less [OF that(3)] that(2) by auto
  show "rising lt i n (elems g) \<and> perm_range 0 n (elems ?h) (elems g)"
  proof (cases "0 < i \<and> lt (?xs ! n) (?xs ! parent i)")
    case True
    have low: "lt (?xs ! n) (?xs ! m)" if "0 < m" "m < n" "parent m = i" for m
      using gp [OF that] True less_split [of "?xs ! n" "?xs ! parent i" "?xs ! m"] by blast
    have "g = ?h"
    proof -
      have "sort_Less ops ?h i m" if "m = 2 * i + 1 \<or> m = 2 * i + 2" "m < n" for m
        using low [of m] that \<open>i < n\<close> n ys nth [of m] nth [of i] by (subst heap_Less) auto
      then show ?thesis
        unfolding g_def by (subst heap_down.simps) (auto simp: Let_def)
    qed
    moreover have "rising lt i n (elems ?h)"
      unfolding rising_def
    proof (intro conjI allI impI)
      fix m
      assume m: "0 < m \<and> m < n \<and> m \<noteq> i"
      then have "parent m < n" using parent_less [of m] by linarith
      then show "\<not> lt (elems ?h ! m) (elems ?h ! parent m)"
        using m low [of m] H [of m] less_asym by (auto simp: nth)
    next
      fix m
      assume m: "0 < m \<and> m < n \<and> parent m = i \<and> 0 < i"
      then have "parent i < n" "m \<noteq> i" "parent i \<noteq> i" using mi [of m] \<open>i < n\<close> by auto
      then show "\<not> lt (elems ?h ! m) (elems ?h ! parent i)"
        using m gp [of m] by (simp add: nth)
    qed
    ultimately show ?thesis by simp
  next
    case False
    have "sinking lt 0 i n (elems ?h)"
      unfolding sinking_def
    proof (intro conjI allI impI)
      fix m
      assume m: "0 < m \<and> m < n \<and> 0 \<le> parent m \<and> parent m \<noteq> i"
      then have "parent m < n" using parent_less [of m] by linarith
      then show "\<not> lt (elems ?h ! m) (elems ?h ! parent m)"
        using m False H [of m] by (auto simp: nth)
    next
      fix m
      assume m: "0 < m \<and> m < n \<and> parent m = i \<and> 0 < i \<and> 0 \<le> parent i"
      then have "parent i < n" "m \<noteq> i" "parent i \<noteq> i" using mi [of m] \<open>i < n\<close> by auto
      then show "\<not> lt (elems ?h ! m) (elems ?h ! parent i)"
        using m gp [of m] by (simp add: nth)
    qed
    then have "heap_from lt 0 n (elems g) \<and> perm_range i n (elems ?h) (elems g)"
      unfolding g_def using n ys by (intro heap_down_heap) simp_all
    then show ?thesis using heap_rising \<open>i < n\<close> perm_range_widen [of i n _ _ 0 n] by blast
  qed
qed

lemma Remove_heap:
  assumes heap: "is_heap lt (elems h)" and i: "i < length (elems h)"
  shows "\<exists>h'. heap_Remove ops h i = Inr (h', elems h ! i) \<and> is_heap lt (elems h') \<and>
    mset (elems h) = add_mset (elems h ! i) (mset (elems h'))"
proof -
  let ?xs = "elems h"
  obtain n where n: "length ?xs = Suc n" using i by (cases "length ?xs") auto
  show ?thesis
  proof (cases "i = n")
    case True
    obtain h' y where p: "coll_Pop ops h = (h', y)" by fastforce
    have "heap_from lt 0 n ?xs" using heap n by (simp add: heap_from_def)
    from coll_Pop_heap [OF n this refl _ p] True n p show ?thesis
      by (intro exI [of _ h']) (simp add: heap_Remove_def heap_Len Let_def)
  next
    case False
    then have "i < n" using i n by simp
    let ?h = "sort_Swap ops h i n"
    define g where "g = heap_down ops i n ?h"
    have ys: "elems ?h = swap_elems ?xs i n" using \<open>i < n\<close> n by (simp add: heap_Swap)
    note g = remove_down [OF heap n \<open>i < n\<close> g_def]
    have lg: "length (elems g) = Suc n" using g perm_range_length ys n by fastforce
    define f where "f = heap_up ops i g"
    have f: "heap_from lt 0 n (elems f)" "perm_range 0 n (elems ?h) (elems f)"
      using heap_up_heap [of i n g] g lg \<open>i < n\<close> perm_range_trans unfolding f_def by fastforce+
    have lf: "length (elems f) = Suc n" using perm_range_length [OF f(2)] ys n by simp
    have "perm_range 0 (Suc n) ?xs (elems ?h)" unfolding ys using n \<open>i < n\<close> by (intro perm_range_swap) simp_all
    then have mset: "mset (elems f) = mset ?xs" using f(2) by (simp add: perm_range_def)
    have last: "elems f ! n = ?xs ! i"
      using perm_range_outside [OF f(2), of n] ys n \<open>i < n\<close> by (simp add: nth_swap_elems)
    obtain h' y where p: "coll_Pop ops f = (h', y)" by fastforce
    have "heap_Remove ops h i = Inr (h', y)"
      using \<open>i < n\<close> n p by (simp add: heap_Remove_def heap_Len Let_def f_def g_def)
    with coll_Pop_heap [OF lf f(1) mset last p] show ?thesis by blast
  qed
qed

end

subsection \<open>Vectors satisfy the contract\<close>

text \<open>The methods of \<^verbatim>\<open>vector.Vector\<close>; elements are compared by their own method \<^verbatim>\<open>Less\<close>.\<close>

definition vec_heap :: "('a \<Rightarrow> 'a \<Rightarrow> bool) \<Rightarrow> 'a \<Rightarrow> ('a vec, 'a) heap_ops" where
  "vec_heap lt zero = \<lparr>sort_Len = vec_Len, sort_Less = vec_Less lt, sort_Swap = vec_Swap,
     coll_Push = (\<lambda>p x. case vec_Push zero p x of Inl e \<Rightarrow> p | Inr p' \<Rightarrow> p'),
     coll_Pop = (\<lambda>p. case vec_Pop zero p of Inl e \<Rightarrow> (p, zero) | Inr r \<Rightarrow> r)\<rparr>"

interpretation vecheap: heap_iface "vec_heap (<) zero" vec_elems "(<) :: 'a::linorder \<Rightarrow> 'a \<Rightarrow> bool" for zero
proof
  show "vec_elems (coll_Push (vec_heap (<) zero) p x) = vec_elems p @ [x]" for p :: "'a vec" and x
    using vec_Push_elems [of zero p x] by (auto simp: vec_heap_def)
  show "snd (coll_Pop (vec_heap (<) zero) p) = last (vec_elems p) \<and>
      vec_elems (fst (coll_Pop (vec_heap (<) zero) p)) = butlast (vec_elems p)"
    if "vec_elems p \<noteq> []" for p :: "'a vec"
    using that by (auto simp: vec_heap_def vec_Pop_def vec_reslice_def Let_def last_conv_nth
        butlast_conv_take)
qed (auto simp: vec_heap_def sort_ops.truncate_def vec_Less_def vec_Swap_def)

subsection \<open>Heaps are priority queues\<close>

text \<open>
  C13: over a vector, \<^verbatim>\<open>Init\<close> makes any contents a heap, and on heaps \<^verbatim>\<open>Push\<close>, \<^verbatim>\<open>Pop\<close> and
  \<^verbatim>\<open>Remove\<close> preserve the heap invariant and act on the multiset of elements as the operations
  of a priority queue: \<^verbatim>\<open>Push\<close> adds its argument, \<^verbatim>\<open>Pop\<close> takes out a minimum and returns it,
  \<^verbatim>\<open>Remove\<close> takes out the element at its index.
\<close>

theorem heap_priority_queue:
  fixes h :: "'a::linorder vec" and zero :: 'a
  defines "ops \<equiv> vec_heap (<) zero"
  assumes "is_heap (<) (vec_elems h)"
  shows "is_heap (<) (vec_elems (heap_Init ops g)) \<and> mset (vec_elems (heap_Init ops g)) = mset (vec_elems g) \<and>
    is_heap (<) (vec_elems (heap_Push ops h x)) \<and>
    mset (vec_elems (heap_Push ops h x)) = add_mset x (mset (vec_elems h)) \<and>
    (vec_Len h \<noteq> 0 \<longrightarrow> (\<exists>h'. heap_Pop ops h = Inr (h', Min_mset (mset (vec_elems h))) \<and>
       is_heap (<) (vec_elems h') \<and>
       mset (vec_elems h) = add_mset (Min_mset (mset (vec_elems h))) (mset (vec_elems h')))) \<and>
    (i < vec_Len h \<longrightarrow> (\<exists>h'. heap_Remove ops h i = Inr (h', vec_elems h ! i) \<and>
       is_heap (<) (vec_elems h') \<and> mset (vec_elems h) = add_mset (vec_elems h ! i) (mset (vec_elems h'))))"
proof -
  have "vec_elems h ! 0 = Min_mset (mset (vec_elems h))" if "vec_elems h \<noteq> []"
    using vecheap.Pop_heap [OF assms(2) that, of zero] that
    by (intro Min_eqI [symmetric]) (auto simp: not_less)
  then show ?thesis
    unfolding ops_def
    using vecheap.Init_heap [of zero g] vecheap.Push_heap [OF assms(2), of zero x]
      vecheap.Pop_heap [OF assms(2), of zero] vecheap.Remove_heap [OF assms(2), of i zero]
    by auto
qed

theorem heap_priority_queue_witness:
  "let h = \<lparr>vec_elems = [1, 2, 3 :: int], vec_spare = []\<rparr>
   in (\<exists>h'. heap_Pop (vec_heap (<) 0) h = Inr (h', 1) \<and> mset (vec_elems h') = {#2, 3#}) \<and>
      mset (vec_elems (heap_Push (vec_heap (<) 0) h 0)) = {#0, 1, 2, 3#}"
proof -
  let ?h = "\<lparr>vec_elems = [1, 2, 3 :: int], vec_spare = []\<rparr>"
  have "is_heap (<) (vec_elems ?h)"
    by (auto simp: heap_from_def less_Suc_eq numeral_3_eq_3)
  from heap_priority_queue [OF this, where zero = 0 and x = 0 and i = 0 and g = ?h] show ?thesis
    by (auto simp: Let_def)
qed

end
