(* ===== verification/Utf8.thy ===== *)
theory Utf8
  imports Go_Prelude "HOL-Library.Sublist"
begin

text \<open>
  Package \<^verbatim>\<open>utf8\<close>. A rune is a Go \<^verbatim>\<open>int\<close>, here an integer; \<^verbatim>\<open>uint(rune)\<close> reads it as a 32-bit
  word. Byte slices and strings are byte lists, and the two decoders, whose text is the same,
  are one definition.

  The laws of the encoding are proved through its arithmetic reading: each byte is a tag plus
  a group of six (or fewer) bits of the rune.
\<close>

definition RuneError :: int where "RuneError = 0xFFFD"

definition RuneSelf :: byte where "RuneSelf = 0x80"

definition UTFMax :: nat where "UTFMax = 4"

definition MaxRune :: int where "MaxRune = 0x10FFFF"

definition Rune1Max :: int where "Rune1Max = 2 ^ 7 - 1"

definition Rune2Max :: int where "Rune2Max = 2 ^ 11 - 1"

definition Rune3Max :: int where "Rune3Max = 2 ^ 16 - 1"

definition Rune4Max :: int where "Rune4Max = 2 ^ 21 - 1"

lemmas rune_consts = RuneError_def RuneSelf_def UTFMax_def MaxRune_def Rune1Max_def Rune2Max_def
  Rune3Max_def Rune4Max_def

subsection \<open>Decoding\<close>

text \<open>The result is the rune, its width, and whether the bytes ended too early.\<close>

definition decodeRuneInternal :: "byte list \<Rightarrow> int \<times> nat \<times> bool" where
  "decodeRuneInternal p =
     (let n = length p
      in if n < 1 then (RuneError, 0, True)
         else let c0 = p ! 0
         in if c0 < 0x80 then (uint c0, 1, False)
         else if c0 < 0xC0 then (RuneError, 1, False)
         else if n < 2 then (RuneError, 1, True)
         else let c1 = p ! 1
         in if c1 < 0x80 \<or> 0xC0 \<le> c1 then (RuneError, 1, False)
         else if c0 < 0xE0 then
           let rune = push_bit 6 (uint (c0 AND 0x1F)) OR uint (c1 AND 0x3F)
           in if rune \<le> Rune1Max then (RuneError, 1, False) else (rune, 2, False)
         else if n < 3 then (RuneError, 1, True)
         else let c2 = p ! 2
         in if c2 < 0x80 \<or> 0xC0 \<le> c2 then (RuneError, 1, False)
         else if c0 < 0xF0 then
           let rune = push_bit 12 (uint (c0 AND 0x0F)) OR push_bit 6 (uint (c1 AND 0x3F)) OR uint (c2 AND 0x3F)
           in if rune \<le> Rune2Max then (RuneError, 1, False) else (rune, 3, False)
         else if n < 4 then (RuneError, 1, True)
         else let c3 = p ! 3
         in if c3 < 0x80 \<or> 0xC0 \<le> c3 then (RuneError, 1, False)
         else if c0 < 0xF8 then
           let rune = push_bit 18 (uint (c0 AND 0x07)) OR push_bit 12 (uint (c1 AND 0x3F))
                 OR push_bit 6 (uint (c2 AND 0x3F)) OR uint (c3 AND 0x3F)
           in if rune \<le> Rune3Max then (RuneError, 1, False) else (rune, 4, False)
         else (RuneError, 1, False))"

definition decodeRuneInStringInternal :: "byte list \<Rightarrow> int \<times> nat \<times> bool" where
  "decodeRuneInStringInternal s = decodeRuneInternal s"

definition FullRune :: "byte list \<Rightarrow> bool" where
  "FullRune p = (let (_, _, short) = decodeRuneInternal p in \<not> short)"

definition FullRuneInString :: "byte list \<Rightarrow> bool" where
  "FullRuneInString s = (let (_, _, short) = decodeRuneInStringInternal s in \<not> short)"

definition DecodeRune :: "byte list \<Rightarrow> int \<times> nat" where
  "DecodeRune p = (let (rune, size, _) = decodeRuneInternal p in (rune, size))"

definition DecodeRuneInString :: "byte list \<Rightarrow> int \<times> nat" where
  "DecodeRuneInString s = (let (rune, size, _) = decodeRuneInStringInternal s in (rune, size))"

subsection \<open>Encoding\<close>

definition RuneLen :: "int \<Rightarrow> int" where
  "RuneLen rune =
     (if rune \<le> Rune1Max then 1
      else if rune \<le> Rune2Max then 2
      else if rune \<le> Rune3Max then 3
      else if rune \<le> Rune4Max then 4
      else -1)"

text \<open>The bytes that \<^verbatim>\<open>EncodeRune\<close> stores at the front of its buffer.\<close>

definition encodeRune_bytes :: "int \<Rightarrow> byte list" where
  "encodeRune_bytes rune =
     (let r = word_of_int rune :: uint32
      in if r \<le> word_of_int Rune1Max then [ucast r]
         else if r \<le> word_of_int Rune2Max then
           [0xC0 OR byte_at 6 r, 0x80 OR (byte_at 0 r AND 0x3F)]
         else let r = (if r > word_of_int MaxRune then word_of_int RuneError else r)
         in if r \<le> word_of_int Rune3Max then
           [0xE0 OR byte_at 12 r, 0x80 OR (byte_at 6 r AND 0x3F), 0x80 OR (byte_at 0 r AND 0x3F)]
         else
           [0xF0 OR byte_at 18 r, 0x80 OR (byte_at 12 r AND 0x3F),
            0x80 OR (byte_at 6 r AND 0x3F), 0x80 OR (byte_at 0 r AND 0x3F)])"

definition EncodeRune :: "int \<Rightarrow> byte list \<Rightarrow> (byte list \<times> nat) go" where
  "EncodeRune rune p =
     (let bs = encodeRune_bytes rune
      in if length bs \<le> length p then Inr (copy_at p 0 bs, length bs)
         else Inl (Panic ''index out of range''))"

subsection \<open>Counting\<close>

text \<open>The loop of \<^verbatim>\<open>RuneCount\<close> on the bytes from \<open>i\<close> on.\<close>

lemma decode_size: "p \<noteq> [] \<Longrightarrow> 1 \<le> snd (DecodeRune p) \<and> snd (DecodeRune p) \<le> length p"
  by (auto simp: DecodeRune_def decodeRuneInternal_def Let_def Suc_le_eq)

function RuneCount :: "byte list \<Rightarrow> nat" where
  "RuneCount p =
     (if p = [] then 0
      else if p ! 0 < RuneSelf then 1 + RuneCount (drop 1 p)
      else 1 + RuneCount (drop (snd (DecodeRune p)) p))"
  by pat_completeness auto
termination
proof (relation "measure length")
  fix p :: "byte list"
  assume "p \<noteq> []"
  then show "(drop (snd (DecodeRune p)) p, p) \<in> measure length"
    using decode_size [of p] by (simp add: less_diff_conv)
qed simp_all

declare RuneCount.simps [simp del]

definition RuneStart :: "byte \<Rightarrow> bool" where
  "RuneStart b = (b AND 0xC0 \<noteq> 0x80)"

subsection \<open>The encoding in arithmetic\<close>

text \<open>
  The rows of the encoding table: one byte below 128; otherwise a first byte with 2, 3 or 4
  bits set at the top and continuation bytes with six bits of the rune each. The shortest
  row that fits is the encoding of a rune.
\<close>

definition utf8_enc :: "int \<Rightarrow> int list" where
  "utf8_enc r =
     (if r < 128 then [r]
      else if r < 2048 then [192 + r div 64, 128 + r mod 64]
      else if r < 65536 then [224 + r div 4096, 128 + r div 64 mod 64, 128 + r mod 64]
      else [240 + r div 262144, 128 + r div 4096 mod 64, 128 + r div 64 mod 64, 128 + r mod 64])"

lemma uint_masks:
  "uint (c AND 0x3F :: byte) = uint c mod 64" "uint (c AND 0x1F :: byte) = uint c mod 32"
  "uint (c AND 0x0F :: byte) = uint c mod 16" "uint (c AND 0x07 :: byte) = uint c mod 8"
  using take_bit_eq_mask [of 6 "uint c"] take_bit_eq_mask [of 5 "uint c"]
    take_bit_eq_mask [of 4 "uint c"] take_bit_eq_mask [of 3 "uint c"]
  by (simp_all add: unsigned_and_eq mask_eq_exp_minus_1 take_bit_eq_mod)

lemma uint_tags:
  fixes c :: byte
  shows "uint c < 64 \<Longrightarrow> uint (0x80 OR c) = 128 + uint c" "uint c < 64 \<Longrightarrow> uint (0xC0 OR c) = 192 + uint c"
    "uint c < 32 \<Longrightarrow> uint (0xE0 OR c) = 224 + uint c" "uint c < 16 \<Longrightarrow> uint (0xF0 OR c) = 240 + uint c"
  using int_pack [of "uint c" 6 2] int_pack [of "uint c" 6 3] int_pack [of "uint c" 5 7] int_pack [of "uint c" 4 15]
  by (simp_all add: unsigned_or_eq)

lemma uint_byte_at: "uint (byte_at k r) = uint r div 2 ^ k mod 256"
proof -
  have "uint (drop_bit k r) = uint r div 2 ^ k"
    by (subst unsigned_drop_bit_eq) (simp add: drop_bit_eq_div take_bit_int_eq_self)
  then show ?thesis by (simp add: byte_at_def unsigned_ucast_eq take_bit_eq_mod)
qed

lemma utf8_enc_len: "0 \<le> r \<Longrightarrow> r < 2 ^ 21 \<Longrightarrow> utf8_enc r \<noteq> [] \<and> length (utf8_enc r) \<le> 4"
  by (simp add: utf8_enc_def)

lemma encode_enc:
  assumes "0 \<le> r" and "r \<le> MaxRune"
  shows "map uint (encodeRune_bytes r) = utf8_enc r"
proof -
  define w where "w = (word_of_int r :: uint32)"
  have u: "uint w = r"
    using assms by (simp add: MaxRune_def w_def uint_word_of_int)
  have b: "uint (byte_at k w) = r div 2 ^ k mod 256" for k
    by (simp add: uint_byte_at u)
  have le: "w \<le> 127 \<longleftrightarrow> r \<le> 127" "w \<le> 2047 \<longleftrightarrow> r \<le> 2047" "w \<le> 65535 \<longleftrightarrow> r \<le> 65535" "\<not> w > 1114111"
    using u assms by (simp_all add: word_le_def not_less MaxRune_def)
  consider "r \<le> 127" | "127 < r" "r \<le> 2047" | "2047 < r" "r \<le> 65535" | "65535 < r" by linarith
  then show ?thesis
  proof cases
    case 1
    then have "take_bit 8 r = r" using assms(1) by (simp add: take_bit_int_eq_self)
    with 1 show ?thesis
      by (simp add: encodeRune_bytes_def utf8_enc_def Let_def rune_consts w_def [symmetric] le u unsigned_ucast_eq)
  next
    case 2
    then have "r div 64 < 32" "r div 64 \<ge> 0" by simp_all
    with 2 show ?thesis
      by (simp add: encodeRune_bytes_def utf8_enc_def Let_def rune_consts w_def [symmetric] le
          uint_tags uint_masks b mod_mod_cancel)
  next
    case 3
    then have "r div 4096 < 16" "r div 4096 \<ge> 0" by simp_all
    with 3 show ?thesis
      by (simp add: encodeRune_bytes_def utf8_enc_def Let_def rune_consts w_def [symmetric] le
          uint_tags uint_masks b mod_mod_cancel)
  next
    case 4
    then have "r div 262144 < 8" "r div 262144 \<ge> 0" using assms by (simp_all add: MaxRune_def)
    with 4 show ?thesis
      by (simp add: encodeRune_bytes_def utf8_enc_def Let_def rune_consts w_def [symmetric] le
          uint_tags uint_masks b mod_mod_cancel)
  qed
qed

subsection \<open>The decoder inverts the encoding\<close>

text \<open>The three multi-byte rows, in the bits \<open>a\<close>, \<open>b\<close>, \<open>c\<close>, \<open>d\<close> that the bytes carry.\<close>

lemma decode_row2:
  assumes c: "uint c0 = 192 + a" "uint c1 = 128 + b" and a: "0 \<le> a" "a < 32" "0 \<le> b" "b < 64"
  shows "decodeRuneInternal (c0 # c1 # q) =
    (if a * 64 + b \<le> 127 then (RuneError, 1, False) else (a * 64 + b, 2, False))"
proof -
  have m: "(192 + a) mod 32 = a" "(128 + b) mod 64 = b"
    using a digit_div_mod(2) [of a 32 6] digit_div_mod(2) [of b 64 2] by simp_all
  show ?thesis using a
    by (simp add: decodeRuneInternal_def Let_def word_less_def word_le_def uint_masks int_pack rune_consts c m)
qed

lemma decode_row3:
  assumes c: "uint c0 = 224 + a" "uint c1 = 128 + b" "uint c2 = 128 + c"
    and a: "0 \<le> a" "a < 16" "0 \<le> b" "b < 64" "0 \<le> c" "c < 64"
  shows "decodeRuneInternal (c0 # c1 # c2 # q) =
    (if a * 4096 + (b * 64 + c) \<le> 2047 then (RuneError, 1, False) else (a * 4096 + (b * 64 + c), 3, False))"
proof -
  have m: "(224 + a) mod 16 = a" "(128 + b) mod 64 = b" "(128 + c) mod 64 = c"
    using a digit_div_mod(2) [of a 16 14] digit_div_mod(2) [of b 64 2] digit_div_mod(2) [of c 64 2] by simp_all
  show ?thesis using a
    by (simp add: decodeRuneInternal_def Let_def word_less_def word_le_def uint_masks int_pack rune_consts c m)
qed

lemma decode_row4:
  assumes c: "uint c0 = 240 + a" "uint c1 = 128 + b" "uint c2 = 128 + c" "uint c3 = 128 + d"
    and a: "0 \<le> a" "a < 8" "0 \<le> b" "b < 64" "0 \<le> c" "c < 64" "0 \<le> d" "d < 64"
  shows "decodeRuneInternal (c0 # c1 # c2 # c3 # q) =
    (if a * 262144 + (b * 4096 + (c * 64 + d)) \<le> 65535 then (RuneError, 1, False)
     else (a * 262144 + (b * 4096 + (c * 64 + d)), 4, False))"
proof -
  have m: "(240 + a) mod 8 = a" "(128 + b) mod 64 = b" "(128 + c) mod 64 = c" "(128 + d) mod 64 = d"
    using a digit_div_mod(2) [of a 8 30] digit_div_mod(2) [of b 64 2] digit_div_mod(2) [of c 64 2] digit_div_mod(2) [of d 64 2] by simp_all
  show ?thesis using a
    by (simp add: decodeRuneInternal_def Let_def word_less_def word_le_def uint_masks int_pack rune_consts c m)
qed

text \<open>The rows of the encoding in the same bits, and the row of every rune.\<close>

lemma enc_row2:
  assumes "0 \<le> a" "a < 32" "0 \<le> b" "b < 64" "127 < a * 64 + b"
  shows "utf8_enc (a * 64 + b) = [192 + a, 128 + b]"
  using assms digit_div_mod [OF assms(3,4), of a] by (simp add: utf8_enc_def)

lemma enc_row3:
  assumes "0 \<le> a" "a < 16" "0 \<le> b" "b < 64" "0 \<le> c" "c < 64" "2047 < a * 4096 + (b * 64 + c)"
  shows "utf8_enc (a * 4096 + (b * 64 + c)) = [224 + a, 128 + b, 128 + c]"
proof -
  define r where "r = a * 4096 + (b * 64 + c)"
  have "r = (a * 64 + b) * 64 + c" by (simp add: r_def)
  then have "r div 64 = a * 64 + b" "r mod 64 = c" by (simp_all only: digit_div_mod [OF assms(5,6)])
  moreover have "(a * 64 + b) mod 64 = b" by (simp only: digit_div_mod [OF assms(3,4)])
  moreover have "r div 4096 = a" unfolding r_def using assms by (intro digit_div_mod) simp_all
  moreover have "2047 < r" "r < 65536" using assms by (simp_all add: r_def)
  ultimately show ?thesis unfolding r_def [symmetric] by (simp add: utf8_enc_def)
qed

lemma enc_row4:
  assumes "0 \<le> a" "a < 8" "0 \<le> b" "b < 64" "0 \<le> c" "c < 64" "0 \<le> d" "d < 64"
    and "65535 < a * 262144 + (b * 4096 + (c * 64 + d))"
  shows "utf8_enc (a * 262144 + (b * 4096 + (c * 64 + d))) = [240 + a, 128 + b, 128 + c, 128 + d]"
proof -
  define r where "r = a * 262144 + (b * 4096 + (c * 64 + d))"
  have "r = ((a * 64 + b) * 64 + c) * 64 + d" by (simp add: r_def)
  then have "r div 64 = (a * 64 + b) * 64 + c" "r mod 64 = d" by (simp_all only: digit_div_mod [OF assms(7,8)])
  moreover have "((a * 64 + b) * 64 + c) mod 64 = c" by (simp only: digit_div_mod [OF assms(5,6)])
  moreover have "r = (a * 64 + b) * 4096 + (c * 64 + d)" by (simp add: r_def)
  then have "r div 4096 = a * 64 + b" using assms digit_div_mod(1) [of "c * 64 + d" 4096] by simp
  moreover have "(a * 64 + b) mod 64 = b" by (simp only: digit_div_mod [OF assms(3,4)])
  moreover have "r div 262144 = a" unfolding r_def using assms by (intro digit_div_mod) simp_all
  moreover have "65535 < r" using assms by (simp add: r_def)
  ultimately show ?thesis unfolding r_def [symmetric] by (simp add: utf8_enc_def)
qed

lemma rune_row:
  fixes r :: int
  assumes "0 \<le> r" and "r < 2 ^ 21"
  obtains "r < 128"
    | a b where "r = a * 64 + b" "0 \<le> a" "a < 32" "0 \<le> b" "b < 64" "127 < a * 64 + b"
    | a b c where "r = a * 4096 + (b * 64 + c)" "0 \<le> a" "a < 16" "0 \<le> b" "b < 64" "0 \<le> c" "c < 64"
        "2047 < a * 4096 + (b * 64 + c)"
    | a b c d where "r = a * 262144 + (b * 4096 + (c * 64 + d))" "0 \<le> a" "a < 8" "0 \<le> b" "b < 64"
        "0 \<le> c" "c < 64" "0 \<le> d" "d < 64" "65535 < a * 262144 + (b * 4096 + (c * 64 + d))"
proof -
  define q1 q2 q3 where "q1 = r div 64" and "q2 = q1 div 64" and "q3 = q2 div 64"
  have r: "r = q1 * 64 + r mod 64" and q1: "q1 = q2 * 64 + q1 mod 64" and q2: "q2 = q3 * 64 + q2 mod 64"
    unfolding q1_def q2_def q3_def by (simp_all only: div_mult_mod_eq)
  have m: "0 \<le> x mod 64" "x mod 64 < 64" for x :: int by simp_all
  have pos: "0 \<le> q1" "0 \<le> q2" "0 \<le> q3" using assms(1) by (simp_all add: q1_def q2_def q3_def pos_imp_zdiv_nonneg_iff)
  consider "r < 128" | "127 < r" "r < 2048" | "2047 < r" "r < 65536" | "65535 < r" by linarith
  then show thesis
  proof cases
    case 1
    then show thesis by (rule that(1))
  next
    case 2
    then have "q1 < 32" using r m [of r] by linarith
    then show thesis using that(2) [of q1 "r mod 64"] r 2 m [of r] pos by simp
  next
    case 3
    then have "q2 < 16" using r q1 m [of r] m [of q1] by linarith
    moreover have "r = q2 * 4096 + (q1 mod 64 * 64 + r mod 64)" using r q1 by linarith
    ultimately show thesis using that(3) [of q2 "q1 mod 64" "r mod 64"] 3 m pos by simp
  next
    case 4
    have "q3 < 8" using assms(2) r q1 q2 m [of r] m [of q1] m [of q2] by simp
    moreover have "r = q3 * 262144 + (q2 mod 64 * 4096 + (q1 mod 64 * 64 + r mod 64))" using r q1 q2 by linarith
    ultimately show thesis using that(4) [of q3 "q2 mod 64" "q1 mod 64" "r mod 64"] 4 m pos by simp
  qed
qed

lemma decode_enc:
  assumes p: "map uint p = utf8_enc r @ ds" and r: "0 \<le> r" "r < 2 ^ 21"
  shows "decodeRuneInternal p = (r, length (utf8_enc r), False)"
  using r
proof (cases rule: rune_row)
  case 1
  with p obtain c0 q where "p = c0 # q" "uint c0 = r" by (auto simp: utf8_enc_def)
  with 1 show ?thesis by (simp add: decodeRuneInternal_def utf8_enc_def word_less_def)
next
  case (2 a b)
  note enc = enc_row2 [OF 2(2-6), folded 2(1)]
  from p [unfolded enc] obtain c0 c1 q where "p = c0 # c1 # q" "uint c0 = 192 + a" "uint c1 = 128 + b"
    by (auto simp: map_eq_Cons_conv)
  with 2 decode_row2 [of c0 a c1 b q] show ?thesis unfolding enc by simp
next
  case (3 a b c)
  note enc = enc_row3 [OF 3(2-8), folded 3(1)]
  from p [unfolded enc] obtain c0 c1 c2 q where
    "p = c0 # c1 # c2 # q" "uint c0 = 224 + a" "uint c1 = 128 + b" "uint c2 = 128 + c"
    by (auto simp: map_eq_Cons_conv)
  with 3 decode_row3 [of c0 a c1 b c2 c q] show ?thesis unfolding enc by simp
next
  case (4 a b c d)
  note enc = enc_row4 [OF 4(2-10), folded 4(1)]
  from p [unfolded enc] obtain c0 c1 c2 c3 q where
    "p = c0 # c1 # c2 # c3 # q" "uint c0 = 240 + a" "uint c1 = 128 + b" "uint c2 = 128 + c" "uint c3 = 128 + d"
    by (auto simp: map_eq_Cons_conv)
  with 4 decode_row4 [of c0 a c1 b c2 c c3 d q] show ?thesis unfolding enc by simp
qed

text \<open>
  A continuation byte carries six bits. The decoder asks for one at each index it reads, so
  an accepted first byte is followed by as many of them as its row has.
\<close>

lemma cont_byte:
  assumes "\<not> (c < 0x80 \<or> 0xC0 \<le> (c :: byte))"
  obtains b where "uint c = 128 + b" "0 \<le> b" "b < 64"
  using assms that [of "uint c - 128"] by (simp add: word_less_def word_le_def)

lemma decode_shape:
  assumes dec: "decodeRuneInternal p = (r, k, short)" and ok: "\<not> (r = RuneError \<and> k \<le> 1)"
  obtains c0 q where "p = c0 # q" "c0 < 0x80" "r = uint c0" "k = 1" "\<not> short"
    | c0 c1 q where "p = c0 # c1 # q" "0xC0 \<le> c0" "c0 < 0xE0" "\<not> (c1 < 0x80 \<or> 0xC0 \<le> c1)"
    | c0 c1 c2 q where "p = c0 # c1 # c2 # q" "0xE0 \<le> c0" "c0 < 0xF0" "\<not> (c1 < 0x80 \<or> 0xC0 \<le> c1)"
        "\<not> (c2 < 0x80 \<or> 0xC0 \<le> c2)"
    | c0 c1 c2 c3 q where "p = c0 # c1 # c2 # c3 # q" "0xF0 \<le> c0" "c0 < 0xF8"
        "\<not> (c1 < 0x80 \<or> 0xC0 \<le> c1)" "\<not> (c2 < 0x80 \<or> 0xC0 \<le> c2)" "\<not> (c3 < 0x80 \<or> 0xC0 \<le> c3)"
proof (cases p)
  case Nil
  with dec ok show thesis by (auto simp: decodeRuneInternal_def)
next
  case p: (Cons c0 q)
  show thesis
  proof (cases "c0 < 0xC0")
    case True
    with dec ok p that(1) show thesis by (auto simp: decodeRuneInternal_def Let_def split: if_splits)
  next
    case c0: False
    then have c0': "\<not> c0 < 0x80" by (auto simp: word_less_def)
    with dec ok p c0 obtain c1 q1 where q: "q = c1 # q1" "\<not> (c1 < 0x80 \<or> 0xC0 \<le> c1)"
      by (cases q) (auto simp: decodeRuneInternal_def Let_def split: if_splits)
    show thesis
    proof (cases "c0 < 0xE0")
      case True
      with p q c0 that(2) show thesis by (simp add: not_less)
    next
      case c0'': False
      with dec ok p c0 c0' q obtain c2 q2 where q1: "q1 = c2 # q2" "\<not> (c2 < 0x80 \<or> 0xC0 \<le> c2)"
        by (cases q1) (auto simp: decodeRuneInternal_def Let_def split: if_splits)
      show thesis
      proof (cases "c0 < 0xF0")
        case True
        with p q q1 c0'' that(3) show thesis by (simp add: not_less)
      next
        case False
        with dec ok p c0 c0' c0'' q q1 obtain c3 q3 where
          "q2 = c3 # q3" "\<not> (c3 < 0x80 \<or> 0xC0 \<le> c3)" "c0 < 0xF8"
          by (cases q2) (auto simp: decodeRuneInternal_def Let_def split: if_splits)
        with p q q1 False that(4) show thesis by (simp add: not_less)
      qed
    qed
  qed
qed

lemma decode_valid:
  assumes dec: "decodeRuneInternal p = (r, k, short)" and ok: "\<not> (r = RuneError \<and> k \<le> 1)"
  shows "0 \<le> r \<and> r < 2 ^ 21 \<and> k = length (utf8_enc r) \<and> \<not> short \<and> map uint (take k p) = utf8_enc r"
  using dec ok
proof (cases rule: decode_shape)
  case (1 c0 q)
  then show ?thesis by (simp add: utf8_enc_def word_less_def)
next
  case (2 c0 c1 q)
  then obtain a where a: "uint c0 = 192 + a" "0 \<le> a" "a < 32"
    by (intro that [of "uint c0 - 192"]) (simp_all add: word_less_def word_le_def)
  obtain b where b: "uint c1 = 128 + b" "0 \<le> b" "b < 64" using 2(4) by (rule cont_byte)
  have "127 < a * 64 + b" "r = a * 64 + b" "k = 2" "\<not> short"
    using dec ok 2(1) decode_row2 [OF a(1) b(1) a(2,3) b(2,3), of q] by (auto split: if_splits)
  then show ?thesis using 2(1) a b enc_row2 [of a b] by (simp add: numeral_2_eq_2)
next
  case (3 c0 c1 c2 q)
  then obtain a where a: "uint c0 = 224 + a" "0 \<le> a" "a < 16"
    by (intro that [of "uint c0 - 224"]) (simp_all add: word_less_def word_le_def)
  obtain b where b: "uint c1 = 128 + b" "0 \<le> b" "b < 64" using 3(4) by (rule cont_byte)
  obtain c where c: "uint c2 = 128 + c" "0 \<le> c" "c < 64" using 3(5) by (rule cont_byte)
  have "2047 < a * 4096 + (b * 64 + c)" "r = a * 4096 + (b * 64 + c)" "k = 3" "\<not> short"
    using dec ok 3(1) decode_row3 [OF a(1) b(1) c(1) a(2,3) b(2,3) c(2,3), of q] by (auto split: if_splits)
  then show ?thesis using 3(1) a b c enc_row3 [of a b c] by (simp add: numeral_3_eq_3)
next
  case (4 c0 c1 c2 c3 q)
  then obtain a where a: "uint c0 = 240 + a" "0 \<le> a" "a < 8"
    by (intro that [of "uint c0 - 240"]) (simp_all add: word_less_def word_le_def)
  obtain b where b: "uint c1 = 128 + b" "0 \<le> b" "b < 64" using 4(4) by (rule cont_byte)
  obtain c where c: "uint c2 = 128 + c" "0 \<le> c" "c < 64" using 4(5) by (rule cont_byte)
  obtain d where d: "uint c3 = 128 + d" "0 \<le> d" "d < 64" using 4(6) by (rule cont_byte)
  have "65535 < a * 262144 + (b * 4096 + (c * 64 + d))" "r = a * 262144 + (b * 4096 + (c * 64 + d))" "k = 4" "\<not> short"
    using dec ok 4(1) decode_row4 [OF a(1) b(1) c(1) d(1) a(2,3) b(2,3) c(2,3) d(2,3), of q]
    by (auto split: if_splits)
  then show ?thesis using 4(1) a b c d enc_row4 [of a b c d] by (simp add: eval_nat_numeral)
qed

lemma DecodeRune_internal: "DecodeRune p = (r, k) \<longleftrightarrow> (\<exists>short. decodeRuneInternal p = (r, k, short))"
  by (auto simp: DecodeRune_def split: prod.splits)

lemma utf8_enc_prefix_unique:
  assumes "prefix (utf8_enc r) (map uint p)" "0 \<le> r" "r < 2 ^ 21"
  shows "DecodeRune p = (r, length (utf8_enc r)) \<and> \<not> (r = RuneError \<and> length (utf8_enc r) \<le> 1)"
proof -
  obtain ds where "map uint p = utf8_enc r @ ds" using assms(1) by (auto simp: prefix_def)
  from decode_enc [OF this assms(2,3)] show ?thesis
    by (auto simp: DecodeRune_def utf8_enc_def RuneError_def)
qed

lemma decode_ascii: "p \<noteq> [] \<Longrightarrow> p ! 0 < 0x80 \<Longrightarrow> DecodeRune p = (uint (p ! 0), 1)"
  by (simp add: DecodeRune_def decodeRuneInternal_def Let_def)

subsection \<open>Bytes that start a rune\<close>

lemma RuneStart_iff: "RuneStart b \<longleftrightarrow> uint b < 128 \<or> 192 \<le> uint b"
proof -
  define q d where "q = uint b div 64" and "d = uint b mod 64"
  have d: "0 \<le> d" "d < 64" by (simp_all add: d_def)
  have b: "uint b = q * 64 + d" unfolding q_def d_def by (simp only: div_mult_mod_eq)
  have "0 \<le> uint b" "uint b < 256" using unsigned_less [of b, where 'a = int] by simp_all
  then have q: "q = 0 \<or> q = 1 \<or> q = 2 \<or> q = 3" using b d by linarith
  have "uint b AND 192 = (push_bit 6 q OR d) AND 192" using int_pack [of d 6 q] d b by simp
  also have "\<dots> = push_bit 6 q AND 192"
    using int_disjoint [of d 6 3] d by (simp add: and.commute bit.conj_disj_distrib2)
  finally have "uint b AND 192 = 128 \<longleftrightarrow> q = 2" using q by (auto simp: push_bit_eq_mult)
  moreover have "RuneStart b \<longleftrightarrow> uint b AND 192 \<noteq> 128"
    by (simp add: RuneStart_def word_uint_eq_iff unsigned_and_eq)
  ultimately show ?thesis using b d q by auto
qed

lemma encode_out_of_range:
  assumes "MaxRune < r \<or> r < 0" and "- (2 ^ 31) \<le> r" and "r < 2 ^ 31"
  shows "encodeRune_bytes r = encodeRune_bytes RuneError"
proof -
  have "uint (word_of_int r :: uint32) = (if r < 0 then r + 2 ^ 32 else r)"
  proof (cases "r < 0")
    case True
    then have "(r + 2 ^ 32) mod 2 ^ 32 = r + 2 ^ 32" using assms by (intro mod_pos_pos_trivial) simp_all
    with True show ?thesis by (simp add: uint_word_of_int)
  next
    case False
    then have "r mod 2 ^ 32 = r" using assms by (intro mod_pos_pos_trivial) simp_all
    with False show ?thesis by (simp add: uint_word_of_int)
  qed
  then have "1114111 < uint (word_of_int r :: uint32)"
    using assms by (auto simp: MaxRune_def)
  then show ?thesis
    by (simp add: encodeRune_bytes_def Let_def rune_consts word_le_def word_less_def)
qed

lemma encode_boundaries:
  assumes "0 \<le> r" and "r \<le> MaxRune"
  shows "map RuneStart (encodeRune_bytes r) = True # replicate (length (encodeRune_bytes r) - 1) False"
proof -
  define P where "P = (\<lambda>x :: int. x < 128 \<or> 192 \<le> x)"
  have "map RuneStart (encodeRune_bytes r) = map P (utf8_enc r)"
    unfolding encode_enc [OF assms, symmetric] by (simp add: RuneStart_iff P_def)
  moreover have "length (encodeRune_bytes r) = length (utf8_enc r)"
    using arg_cong [OF encode_enc [OF assms], of length] by simp
  moreover have "0 \<le> r div 64" "0 \<le> r div 4096" "0 \<le> r div 262144"
    using assms by (simp_all add: pos_imp_zdiv_nonneg_iff)
  ultimately show ?thesis by (simp add: utf8_enc_def P_def not_less not_le)
qed

subsection \<open>Properties\<close>

text \<open>
  C15: the round trip. For every code point, \<^verbatim>\<open>EncodeRune\<close> into a buffer of \<^verbatim>\<open>UTFMax\<close> bytes does
  not panic, stores \<^verbatim>\<open>RuneLen\<close> bytes and leaves the rest of the buffer alone; \<^verbatim>\<open>DecodeRune\<close>
  reads back the rune and its width, whatever bytes follow, and \<^verbatim>\<open>FullRune\<close> sees a full rune.
\<close>

theorem utf8_roundtrip:
  assumes "0 \<le> r" and "r \<le> MaxRune" and "UTFMax \<le> length buf"
  shows "\<exists>buf' n. EncodeRune r buf = Inr (buf', n) \<and> int n = RuneLen r \<and> drop n buf' = drop n buf \<and>
    DecodeRune buf' = (r, n) \<and> DecodeRuneInString (take n buf' @ q) = (r, n) \<and>
    FullRune (take n buf') \<and> FullRuneInString (take n buf')"
proof -
  let ?bs = "encodeRune_bytes r" and ?n = "length (encodeRune_bytes r)"
  have r: "0 \<le> r" "r < 2 ^ 21" using assms by (simp_all add: MaxRune_def)
  note enc = encode_enc [OF assms(1,2)]
  have n: "?n = length (utf8_enc r)" using arg_cong [OF enc, of length] by simp
  have len: "?n \<le> length buf" using utf8_enc_len [OF r] assms(3) n by (simp add: UTFMax_def)
  have dec: "decodeRuneInternal (?bs @ s) = (r, ?n, False)" for s
    using decode_enc [of "?bs @ s" r "map uint s"] r enc n by simp
  have "int ?n = RuneLen r" using r by (simp add: n utf8_enc_def RuneLen_def rune_consts)
  moreover have "copy_at buf 0 ?bs = ?bs @ drop ?n buf" using len by (simp add: copy_at_eq)
  ultimately show ?thesis
    using len dec [of "drop ?n buf"] dec [of q] dec [of "[]"]
    by (simp add: EncodeRune_def DecodeRune_def DecodeRuneInString_def FullRune_def FullRuneInString_def
        decodeRuneInStringInternal_def Let_def)
qed

theorem utf8_roundtrip_witness:
  "\<exists>buf' n. EncodeRune 0x20AC [0, 0, 0, 0, 7] = Inr (buf', n) \<and> DecodeRune buf' = (0x20AC, n)"
  using utf8_roundtrip [of "0x20AC" "[0, 0, 0, 0, 7]" "[]"] by (fastforce simp: rune_consts)

text \<open>
  C16: the decoder accepts exactly the encoding. If the bytes begin with the row of a value
  below \<open>2 ^ 21\<close>, \<^verbatim>\<open>DecodeRune\<close> returns it with its width; there is then only one such value.
  On all other bytes, among them overlong forms, stray continuation bytes and truncated
  sequences, it returns the error rune with width 1.
\<close>

theorem utf8_decode_exact:
  "if p = [] then DecodeRune p = (RuneError, 0)
   else if \<exists>r. 0 \<le> r \<and> r < 2 ^ 21 \<and> prefix (utf8_enc r) (map uint p)
   then \<exists>!r. 0 \<le> r \<and> r < 2 ^ 21 \<and> prefix (utf8_enc r) (map uint p) \<and>
          DecodeRune p = (r, length (utf8_enc r))
   else DecodeRune p = (RuneError, 1)"
proof (cases "p = []")
  case True
  then show ?thesis by (simp add: DecodeRune_def decodeRuneInternal_def)
next
  case False
  obtain r k where dec: "DecodeRune p = (r, k)" by fastforce
  show ?thesis
  proof (cases "r = RuneError \<and> k \<le> 1")
    case True
    then have "k = 1" using decode_size [OF False] dec by simp
    moreover have "\<nexists>r'. 0 \<le> r' \<and> r' < 2 ^ 21 \<and> prefix (utf8_enc r') (map uint p)"
      using utf8_enc_prefix_unique [of _ p] dec True by fastforce
    ultimately show ?thesis using True False dec by auto
  next
    case ok: False
    obtain short where "decodeRuneInternal p = (r, k, short)" using dec by (auto simp: DecodeRune_internal)
    note v = decode_valid [OF this ok]
    then have "prefix (utf8_enc r) (map uint p)" by (metis take_is_prefix take_map)
    then have "\<exists>!r. 0 \<le> r \<and> r < 2 ^ 21 \<and> prefix (utf8_enc r) (map uint p) \<and>
        DecodeRune p = (r, length (utf8_enc r))"
      using v dec by auto
    then show ?thesis using False by auto
  qed
qed

text \<open>
  C20: \<^verbatim>\<open>RuneCount\<close> terminates on every input and counts at most one rune per byte; on the
  concatenation of encodings it counts the runes.
\<close>

theorem utf8_RuneCount:
  "RuneCount p \<le> length p \<and>
   ((\<forall>r \<in> set rs. 0 \<le> r \<and> r \<le> MaxRune) \<longrightarrow> RuneCount (concat (map encodeRune_bytes rs)) = length rs)"
proof (intro conjI impI)
  show "RuneCount p \<le> length p"
  proof (induction p rule: RuneCount.induct)
    case (1 p)
    then show ?case
      using decode_size [of p] by (auto simp: RuneCount.simps [of p] Suc_le_eq)
  qed
  assume "\<forall>r \<in> set rs. 0 \<le> r \<and> r \<le> MaxRune"
  then show "RuneCount (concat (map encodeRune_bytes rs)) = length rs"
  proof (induction rs)
    case Nil
    show ?case by (simp add: RuneCount.simps)
  next
    case (Cons r rs)
    let ?p = "concat (map encodeRune_bytes (r # rs))" and ?n = "length (encodeRune_bytes r)"
    have r: "0 \<le> r" "r < 2 ^ 21" "r \<le> MaxRune" using Cons.prems by (simp_all add: MaxRune_def)
    note enc = encode_enc [OF r(1,3)]
    have n: "?n = length (utf8_enc r)" using arg_cong [OF enc, of length] by simp
    then have dec: "DecodeRune ?p = (r, ?n)"
      using decode_enc [of ?p r "map uint (concat (map encodeRune_bytes rs))"] r enc
      by (simp add: DecodeRune_def)
    have ne: "?p \<noteq> []" using n utf8_enc_len [OF r(1,2)] by auto
    have "?n = 1" if "?p ! 0 < RuneSelf"
      using decode_ascii [OF ne] that dec by (simp only: RuneSelf_def) simp
    then have "RuneCount ?p = 1 + RuneCount (drop ?n ?p)"
      using ne dec by (subst RuneCount.simps) (simp only: if_False snd_conv split: if_split, simp)
    then show ?case using Cons by simp
  qed
qed

theorem utf8_RuneCount_witness:
  "RuneCount (concat (map encodeRune_bytes [0x41, 0x20AC, 0x1F600])) = 3"
  using utf8_RuneCount [of "[]" "[0x41, 0x20AC, 0x1F600]"] by (simp add: MaxRune_def)

text \<open>
  C21: text is self-synchronising. For any 32-bit rune, valid or not, the first byte stored by
  \<^verbatim>\<open>EncodeRune\<close> satisfies \<^verbatim>\<open>RuneStart\<close> and the others do not; runes outside the code space
  are stored as the error rune.
\<close>

theorem utf8_boundaries:
  assumes "- (2 ^ 31) \<le> r" and "r < 2 ^ 31"
  shows "map RuneStart (encodeRune_bytes r) = True # replicate (length (encodeRune_bytes r) - 1) False \<and>
    (MaxRune < r \<or> r < 0 \<longrightarrow> encodeRune_bytes r = encodeRune_bytes RuneError)"
proof (cases "MaxRune < r \<or> r < 0")
  case True
  then have "encodeRune_bytes r = encodeRune_bytes RuneError" using assms by (rule encode_out_of_range)
  then show ?thesis using encode_boundaries [of RuneError] by (simp add: rune_consts)
next
  case False
  then show ?thesis using encode_boundaries [of r] by (simp add: not_less)
qed

theorem utf8_boundaries_witness:
  "map RuneStart (encodeRune_bytes (-1)) = True # replicate (length (encodeRune_bytes (-1)) - 1) False \<and>
   encodeRune_bytes (-1) = encodeRune_bytes RuneError"
proof -
  have "- (2 ^ 31) \<le> (-1 :: int)" "(-1 :: int) < 2 ^ 31" "(-1 :: int) < 0" by simp_all
  with utf8_boundaries [of "-1"] show ?thesis by blast
qed

text \<open>
  \<^verbatim>\<open>FullRune\<close> is sound: bytes that follow a full rune do not change what is decoded.
  It is not what its comment says of invalid encodings: the byte 0xF8 begins no encoding,
  and decodes as an error of width 1 whatever follows, but is not reported as full.
\<close>

theorem utf8_FullRune:
  "(FullRune p \<longrightarrow> decodeRuneInternal (p @ q) = decodeRuneInternal p) \<and>
   \<not> FullRune [0xF8] \<and> DecodeRune (0xF8 # q) = (RuneError, 1)"
proof -
  have "decodeRuneInternal (p @ q) = decodeRuneInternal p" if full: "FullRune p"
  proof -
    consider "p = []" | c0 where "p = [c0]" | c0 c1 where "p = [c0, c1]" | c0 c1 c2 where "p = [c0, c1, c2]"
      | c0 c1 c2 c3 s where "p = c0 # c1 # c2 # c3 # s"
      by (metis list.exhaust)
    then show ?thesis
      using full by cases (simp_all add: FullRune_def decodeRuneInternal_def Let_def split: if_splits)
  qed
  moreover have "\<not> FullRune [0xF8]"
    by (simp add: FullRune_def decodeRuneInternal_def)
  moreover have "DecodeRune (0xF8 # q) = (RuneError, 1)"
    by (simp add: DecodeRune_def decodeRuneInternal_def Let_def)
  ultimately show ?thesis by blast
qed

theorem utf8_FullRune_witness:
  "decodeRuneInternal ([0xC3, 0xA9] @ [1, 2]) = decodeRuneInternal [0xC3, 0xA9]"
proof -
  have "FullRune [0xC3, 0xA9]" by code_simp
  with utf8_FullRune [of "[0xC3, 0xA9]" "[1, 2]"] show ?thesis by blast
qed

text \<open>
  \<^verbatim>\<open>RuneLen\<close> does not return the number of bytes \<^verbatim>\<open>EncodeRune\<close> stores outside the code
  space: for a negative rune it returns 1 and for 0x110000 it returns 4, and three bytes are
  stored for both.
\<close>

theorem utf8_RuneLen_mismatch:
  "RuneLen (-1) = 1 \<and> RuneLen 0x110000 = 4 \<and>
   length (encodeRune_bytes (-1)) = 3 \<and> length (encodeRune_bytes 0x110000) = 3"
proof -
  have "length (encodeRune_bytes RuneError) = 3"
    using arg_cong [OF encode_enc [of RuneError], of length] by (simp add: rune_consts utf8_enc_def)
  then show ?thesis
    using encode_out_of_range [of "-1"] encode_out_of_range [of "0x110000"]
    by (simp add: RuneLen_def rune_consts)
qed

end
