(* ===== verification/Utf16.thy ===== *)
theory Utf16
  imports Utf8
begin

text \<open>
  Package \<^verbatim>\<open>utf16\<close>. Runes are integers, code units 16-bit words. \<^verbatim>\<open>Encode\<close> and \<^verbatim>\<open>Decode\<close> first
  make an array that must be large enough and then store into it by index; that no store is
  out of range is part of what is proved.
\<close>

subsection \<open>The code\<close>

definition surr1 :: int where "surr1 = 0xd800"

definition surr2 :: int where "surr2 = 0xdc00"

definition surr3 :: int where "surr3 = 0xe000"

definition surrSelf :: int where "surrSelf = 0x10000"

lemmas surr_consts = surr1_def surr2_def surr3_def surrSelf_def MaxRune_def RuneError_def

definition IsSurrogate :: "int \<Rightarrow> bool" where
  "IsSurrogate rune \<longleftrightarrow> surr1 \<le> rune \<and> rune < surr3"

definition utf16_DecodeRune :: "int \<Rightarrow> int \<Rightarrow> int" where
  "utf16_DecodeRune r1 r2 =
     (if surr1 \<le> r1 \<and> r1 < surr2 \<and> surr2 \<le> r2 \<and> r2 < surr3
      then (push_bit 10 (r1 - surr1) OR (r2 - surr2)) + 0x10000
      else RuneError)"

definition utf16_EncodeRune :: "int \<Rightarrow> int \<times> int" where
  "utf16_EncodeRune rune =
     (if rune < surrSelf \<or> rune > MaxRune \<or> IsSurrogate rune then (RuneError, RuneError)
      else let rune = rune - surrSelf
           in (surr1 + (drop_bit 10 rune AND 0x3ff), surr2 + (rune AND 0x3ff)))"

text \<open>The second loop of \<^verbatim>\<open>Encode\<close>: \<open>n\<close> is the next index of the array \<open>a\<close>.\<close>

fun utf16_encode_loop :: "uint16 list \<Rightarrow> nat \<Rightarrow> int list \<Rightarrow> uint16 list go" where
  "utf16_encode_loop a n [] = Inr (take n a)"
| "utf16_encode_loop a n (v # s) =
     (if v < 0 \<or> (surr1 \<le> v \<and> v < surr3) \<or> v > MaxRune then
        go_bind (put a n (word_of_int RuneError)) (\<lambda>a. utf16_encode_loop a (n + 1) s)
      else if v < surrSelf then
        go_bind (put a n (word_of_int v)) (\<lambda>a. utf16_encode_loop a (n + 1) s)
      else let (r1, r2) = utf16_EncodeRune v
           in go_bind (put a n (word_of_int r1)) (\<lambda>a.
              go_bind (put a (n + 1) (word_of_int r2)) (\<lambda>a. utf16_encode_loop a (n + 2) s)))"

definition utf16_Encode :: "int list \<Rightarrow> uint16 list go" where
  "utf16_Encode s =
     (let n = foldl (\<lambda>n v. if v \<ge> surrSelf then n + 1 else n) (length s) s
      in utf16_encode_loop (replicate n 0) 0 s)"

text \<open>The loop of \<^verbatim>\<open>Decode\<close> on what is left of \<open>s\<close> from \<open>i\<close> on.\<close>

function utf16_decode_loop :: "int list \<Rightarrow> nat \<Rightarrow> uint16 list \<Rightarrow> int list go" where
  "utf16_decode_loop a n s =
     (if s = [] then Inr (take n a)
      else let r = uint (s ! 0)
      in if surr1 \<le> r \<and> r < surr2 \<and> 1 < length s \<and> surr2 \<le> uint (s ! 1) \<and> uint (s ! 1) < surr3 then
           go_bind (put a n (utf16_DecodeRune r (uint (s ! 1)))) (\<lambda>a. utf16_decode_loop a (n + 1) (drop 2 s))
         else if surr1 \<le> r \<and> r < surr3 then
           go_bind (put a n RuneError) (\<lambda>a. utf16_decode_loop a (n + 1) (drop 1 s))
         else go_bind (put a n r) (\<lambda>a. utf16_decode_loop a (n + 1) (drop 1 s)))"
  by pat_completeness auto
termination
  by (relation "measure (\<lambda>(a, n, s). length s)") auto

declare utf16_decode_loop.simps [simp del]

definition utf16_Decode :: "uint16 list \<Rightarrow> int list go" where
  "utf16_Decode s = utf16_decode_loop (replicate (length s) 0) 0 s"

subsection \<open>One rune\<close>

text \<open>What \<^verbatim>\<open>Encode\<close> stores for one rune, after it has replaced what is not a scalar value.\<close>

definition valid_rune :: "int \<Rightarrow> bool" where
  "valid_rune v \<longleftrightarrow> 0 \<le> v \<and> v \<le> MaxRune \<and> \<not> IsSurrogate v"

definition sanitize :: "int \<Rightarrow> int" where
  "sanitize v = (if valid_rune v then v else RuneError)"

definition utf16_units :: "int \<Rightarrow> uint16 list" where
  "utf16_units v =
     (if v < surrSelf then [word_of_int v]
      else [word_of_int (fst (utf16_EncodeRune v)), word_of_int (snd (utf16_EncodeRune v))])"

lemma valid_sanitize: "valid_rune (sanitize v)"
  by (simp add: sanitize_def valid_rune_def IsSurrogate_def surr_consts)

lemma int_mask10: "x AND 0x3ff = x mod 1024" for x :: int
  using take_bit_eq_mask [of 10 x] by (simp add: mask_eq_exp_minus_1 take_bit_eq_mod)

lemma EncodeRune_pair:
  assumes "surrSelf \<le> v" and "v \<le> MaxRune"
  shows "\<exists>r1 r2. utf16_EncodeRune v = (r1, r2) \<and> surr1 \<le> r1 \<and> r1 < surr2 \<and> surr2 \<le> r2 \<and> r2 < surr3 \<and>
    utf16_DecodeRune r1 r2 = v"
proof -
  define x where "x = v - surrSelf"
  have x: "0 \<le> x" "x < 2 ^ 20" using assms by (simp_all add: x_def surr_consts)
  have "utf16_EncodeRune v = (surr1 + x div 1024 mod 1024, surr2 + x mod 1024)"
    using assms by (simp add: utf16_EncodeRune_def x_def IsSurrogate_def int_mask10 drop_bit_eq_div Let_def surr_consts)
  moreover have "x div 1024 mod 1024 = x div 1024" using x by simp
  moreover have "utf16_DecodeRune (surr1 + x div 1024) (surr2 + x mod 1024) = v"
    using x int_pack [of "x mod 1024" 10 "x div 1024"]
    by (simp add: utf16_DecodeRune_def surr_consts x_def pos_imp_zdiv_nonneg_iff)
  ultimately show ?thesis using x by (simp add: surr_consts pos_imp_zdiv_nonneg_iff)
qed

lemma DecodeRune_valid: "valid_rune (utf16_DecodeRune r1 r2)"
proof (cases "surr1 \<le> r1 \<and> r1 < surr2 \<and> surr2 \<le> r2 \<and> r2 < surr3")
  case True
  then have "utf16_DecodeRune r1 r2 = (r1 - surr1) * 1024 + (r2 - surr2) + 0x10000"
    using int_pack [of "r2 - surr2" 10 "r1 - surr1"] by (simp add: utf16_DecodeRune_def surr_consts)
  then show ?thesis using True by (simp add: valid_rune_def IsSurrogate_def surr_consts)
next
  case False
  then show ?thesis by (auto simp: utf16_DecodeRune_def valid_rune_def IsSurrogate_def surr_consts)
qed

subsection \<open>The loops\<close>

lemma utf16_encode_step:
  assumes "n + length (utf16_units (sanitize v)) \<le> length a"
  shows "utf16_encode_loop a n (v # s) =
    utf16_encode_loop (copy_at a n (utf16_units (sanitize v))) (n + length (utf16_units (sanitize v))) s"
proof (cases "valid_rune v")
  case True
  then have "\<not> (v < 0 \<or> (surr1 \<le> v \<and> v < surr3) \<or> v > MaxRune)" "sanitize v = v"
    by (auto simp: valid_rune_def IsSurrogate_def sanitize_def)
  with assms show ?thesis by (cases "v < surrSelf") (auto simp: utf16_units_def split: prod.splits)
next
  case False
  then have "v < 0 \<or> (surr1 \<le> v \<and> v < surr3) \<or> v > MaxRune" "sanitize v = RuneError"
    by (auto simp: valid_rune_def IsSurrogate_def sanitize_def)
  moreover have "utf16_units RuneError = [word_of_int RuneError]"
    by (simp add: utf16_units_def surr_consts)
  ultimately show ?thesis using assms by simp
qed

lemma utf16_encode_loop_eq:
  "n + length (concat (map (utf16_units \<circ> sanitize) s)) \<le> length a \<Longrightarrow>
   utf16_encode_loop a n s = Inr (take n a @ concat (map (utf16_units \<circ> sanitize) s))"
proof (induction s arbitrary: a n)
  case (Cons v s)
  let ?u = "utf16_units (sanitize v)"
  have "utf16_encode_loop a n (v # s) = utf16_encode_loop (copy_at a n ?u) (n + length ?u) s"
    using Cons.prems by (intro utf16_encode_step) simp
  also have "\<dots> = Inr (take (n + length ?u) (copy_at a n ?u) @ concat (map (utf16_units \<circ> sanitize) s))"
    using Cons.prems by (intro Cons.IH) simp
  also have "take (n + length ?u) (copy_at a n ?u) = take n a @ ?u"
    using Cons.prems by (intro take_copy_at) simp
  finally show ?case by simp
qed simp

lemma utf16_Encode_eq: "utf16_Encode s = Inr (concat (map (utf16_units \<circ> sanitize) s))"
proof -
  have "n + length (concat (map (utf16_units \<circ> sanitize) s)) \<le>
      foldl (\<lambda>n v. if v \<ge> surrSelf then n + 1 else n) (n + length s) s" for n
  proof (induction s arbitrary: n)
    case (Cons v s)
    have "length (utf16_units (sanitize v)) \<le> (if surrSelf \<le> v then 2 else 1)"
      by (auto simp: utf16_units_def sanitize_def surr_consts)
    then show ?case
      using Cons.IH [of "n + (if surrSelf \<le> v then 2 else 1)"] by (simp split: if_splits)
  qed simp
  from this [of 0] show ?thesis
    using utf16_encode_loop_eq [of 0 s "replicate (foldl (\<lambda>n v. if v \<ge> surrSelf then n + 1 else n) (length s) s) 0"]
    by (simp add: utf16_Encode_def Let_def)
qed

lemma uint_unit: "0 \<le> v \<Longrightarrow> v < 65536 \<Longrightarrow> uint (word_of_int v :: uint16) = v"
  by (simp add: uint_word_of_int)

lemma utf16_decode_step:
  assumes "valid_rune v" and "n < length a"
  shows "utf16_decode_loop a n (utf16_units v @ s) = utf16_decode_loop (a[n := v]) (n + 1) s"
proof (cases "v < surrSelf")
  case True
  then have v: "0 \<le> v" "v < 65536" "\<not> (surr1 \<le> v \<and> v < surr3)"
    using assms(1) by (simp_all add: valid_rune_def IsSurrogate_def surr_consts)
  then have "\<not> (surr1 \<le> v \<and> v < surr2)" by (auto simp: surr_consts)
  with v True assms(2) show ?thesis
    by (subst utf16_decode_loop.simps) (auto simp: utf16_units_def uint_unit Let_def)
next
  case False
  then obtain r1 r2 where r: "utf16_EncodeRune v = (r1, r2)" "surr1 \<le> r1" "r1 < surr2" "surr2 \<le> r2" "r2 < surr3"
      "utf16_DecodeRune r1 r2 = v"
    using assms(1) EncodeRune_pair [of v] by (auto simp: valid_rune_def not_less)
  moreover have "uint (word_of_int r1 :: uint16) = r1" "uint (word_of_int r2 :: uint16) = r2"
    using r by (simp_all add: uint_unit surr_consts)
  ultimately show ?thesis
    using False assms(2)
    by (subst utf16_decode_loop.simps) (simp add: utf16_units_def Let_def)
qed

lemma utf16_decode_units:
  "\<forall>v \<in> set vs. valid_rune v \<Longrightarrow> n + length vs \<le> length a \<Longrightarrow>
   utf16_decode_loop a n (concat (map utf16_units vs)) = Inr (take n a @ vs)"
proof (induction vs arbitrary: a n)
  case Nil
  then show ?case by (simp add: utf16_decode_loop.simps)
next
  case (Cons v vs)
  then have "utf16_decode_loop a n (concat (map utf16_units (v # vs))) = Inr (take (n + 1) (a[n := v]) @ vs)"
    by (simp add: utf16_decode_step)
  moreover have "take (n + 1) (a[n := v]) = take n a @ [v]"
    using Cons.prems by (simp add: take_Suc_conv_app_nth)
  ultimately show ?case by simp
qed

lemma utf16_decode_total:
  "n + length s \<le> length a \<Longrightarrow> \<exists>vs. utf16_decode_loop a n s = Inr (take n a @ vs) \<and>
     (\<forall>v \<in> set vs. valid_rune v) \<and> length vs \<le> length s"
proof (induction "length s" arbitrary: a n s rule: less_induct)
  case less
  show ?case
  proof (cases "s = []")
    case True
    then show ?thesis by (simp add: utf16_decode_loop.simps)
  next
    case False
    define x k where "x = (if surr1 \<le> uint (s ! 0) \<and> uint (s ! 0) < surr2 \<and> 1 < length s \<and> surr2 \<le> uint (s ! 1) \<and>
        uint (s ! 1) < surr3 then utf16_DecodeRune (uint (s ! 0)) (uint (s ! 1))
        else if surr1 \<le> uint (s ! 0) \<and> uint (s ! 0) < surr3 then RuneError else uint (s ! 0))"
      and "k = (if surr1 \<le> uint (s ! 0) \<and> uint (s ! 0) < surr2 \<and> 1 < length s \<and> surr2 \<le> uint (s ! 1) \<and>
        uint (s ! 1) < surr3 then 2 else 1 :: nat)"
    have n: "n < length a" using less.prems False by (cases s) auto
    then have eq: "utf16_decode_loop a n s = utf16_decode_loop (a[n := x]) (n + 1) (drop k s)"
      using False by (subst utf16_decode_loop.simps) (auto simp: x_def k_def Let_def)
    have k: "0 < k" "k \<le> length s" using False by (auto simp: k_def Suc_le_eq)
    then have "n + 1 + length (drop k s) \<le> length (a[n := x])" using less.prems by simp
    with k obtain vs where vs: "utf16_decode_loop (a[n := x]) (n + 1) (drop k s) = Inr (take (n + 1) (a[n := x]) @ vs)"
        "\<forall>v \<in> set vs. valid_rune v" "length vs \<le> length (drop k s)"
      using less.hyps [of "drop k s" "n + 1" "a[n := x]"] False by auto
    have "valid_rune x"
      using DecodeRune_valid [of "uint (s ! 0)" "uint (s ! 1)"] unsigned_less [of "s ! 0", where 'a = int]
      by (auto simp: x_def valid_rune_def IsSurrogate_def surr_consts)
    moreover have "take (n + 1) (a[n := x]) = take n a @ [x]" using n by (simp add: take_Suc_conv_app_nth)
    ultimately show ?thesis using eq vs k by (intro exI [of _ "x # vs"]) auto
  qed
qed

subsection \<open>Properties\<close>

text \<open>
  C17: the round trip, for every sequence of integers. \<^verbatim>\<open>Encode\<close> does not panic, and decoding
  what it returns gives the sequence back, with each element that is not a scalar value
  replaced by U+FFFD.
\<close>

theorem utf16_roundtrip:
  "\<exists>u. utf16_Encode s = Inr u \<and> utf16_Decode u = Inr (map sanitize s)"
proof -
  let ?u = "concat (map (utf16_units \<circ> sanitize) s)"
  have "length (map sanitize s) \<le> length ?u"
    by (induction s) (auto simp: utf16_units_def)
  then have "utf16_decode_loop (replicate (length ?u) 0) 0 ?u = Inr (map sanitize s)"
    using utf16_decode_units [of "map sanitize s" 0 "replicate (length ?u) 0"] valid_sanitize by simp
  then show ?thesis by (simp add: utf16_Encode_eq utf16_Decode_def)
qed

text \<open>
  C22: \<^verbatim>\<open>Decode\<close> never panics, on unpaired surrogates and truncated pairs as on anything else,
  returns scalar values only, and no more of them than there are code units.
\<close>

theorem utf16_decode_safe:
  "\<exists>vs. utf16_Decode u = Inr vs \<and> list_all valid_rune vs \<and> length vs \<le> length u"
  using utf16_decode_total [of 0 u "replicate (length u) 0"]
  by (auto simp: utf16_Decode_def list_all_iff)

end
