(* ===== verification/Hex.thy ===== *)
theory Hex
  imports Go_Prelude
begin

text \<open>
  Package \<^verbatim>\<open>encoding/hex\<close>. \<^verbatim>\<open>Encode\<close> and \<^verbatim>\<open>Decode\<close> store into a slice of the caller, which
  must be long enough; the error of \<^verbatim>\<open>Decode\<close> is a value beside the bytes stored so far.
\<close>

subsection \<open>The code\<close>

definition hextable :: "byte list" where
  "hextable = bytes_of ''0123456789abcdef''"

definition hex_EncodedLen :: "nat \<Rightarrow> nat" where
  "hex_EncodedLen n = n * 2"

fun hex_encode_loop :: "byte list \<Rightarrow> nat \<Rightarrow> byte list \<Rightarrow> byte list go" where
  "hex_encode_loop dst i [] = Inr dst"
| "hex_encode_loop dst i (v # src) =
     go_bind (put dst (i * 2) (hextable ! unat (drop_bit 4 v))) (\<lambda>dst.
     go_bind (put dst (i * 2 + 1) (hextable ! unat (v AND 0x0f))) (\<lambda>dst.
     hex_encode_loop dst (i + 1) src))"

definition hex_Encode :: "byte list \<Rightarrow> byte list \<Rightarrow> (byte list \<times> nat) go" where
  "hex_Encode dst src = go_bind (hex_encode_loop dst 0 src) (\<lambda>dst. Inr (dst, length src * 2))"

datatype hex_error = OddLengthInputError | InvalidHexCharError byte

definition hex_DecodedLen :: "nat \<Rightarrow> nat" where
  "hex_DecodedLen x = x div 2"

text \<open>The first case of \<^verbatim>\<open>fromHexChar\<close> compares with the number 0, as the source does.\<close>

definition fromHexChar :: "byte \<Rightarrow> byte \<times> bool" where
  "fromHexChar c =
     (if 0 \<le> c \<and> c \<le> 0x39 then (c - 0x30, True)
      else if 0x61 \<le> c \<and> c \<le> 0x66 then (c - 0x61 + 10, True)
      else if 0x41 \<le> c \<and> c \<le> 0x46 then (c - 0x41 + 10, True)
      else (0, False))"

text \<open>The loop of \<^verbatim>\<open>Decode\<close>, on what is left of \<open>src\<close> from \<open>i * 2\<close> on.\<close>

fun hex_decode_loop :: "byte list \<Rightarrow> nat \<Rightarrow> byte list \<Rightarrow> (byte list \<times> hex_error option) go" where
  "hex_decode_loop dst i (c # d # src) =
     (let (a, ok) = fromHexChar c
      in if \<not> ok then Inr (dst, Some (InvalidHexCharError c))
         else let (b, ok) = fromHexChar d
         in if \<not> ok then Inr (dst, Some (InvalidHexCharError d))
         else go_bind (put dst i (push_bit 4 a OR b)) (\<lambda>dst. hex_decode_loop dst (i + 1) src))"
| "hex_decode_loop dst i _ = Inr (dst, None)"

definition hex_Decode :: "byte list \<Rightarrow> byte list \<Rightarrow> (byte list \<times> nat \<times> hex_error option) go" where
  "hex_Decode dst src =
     (if length src mod 2 = 1 then Inr (dst, 0, Some OddLengthInputError)
      else go_bind (hex_decode_loop dst 0 src) (\<lambda>(dst, err).
        Inr (dst, (if err = None then length src div 2 else 0), err)))"

definition hex_EncodeToString :: "byte list \<Rightarrow> byte list go" where
  "hex_EncodeToString src =
     go_bind (hex_Encode (replicate (hex_EncodedLen (length src)) 0) src) (\<lambda>(dst, n). Inr dst)"

definition hex_DecodeString :: "byte list \<Rightarrow> (byte list option \<times> hex_error option) go" where
  "hex_DecodeString s =
     go_bind (hex_Decode (replicate (hex_DecodedLen (length s)) 0) s) (\<lambda>(dst, n, err).
       Inr (if err \<noteq> None then (None, err) else (Some dst, None)))"

subsection \<open>Digits\<close>

definition hex_pair :: "byte \<Rightarrow> byte list" where
  "hex_pair v = [hextable ! unat (drop_bit 4 v), hextable ! unat (v AND 0x0f)]"

lemma hextable_eq:
  "hextable = [0x30, 0x31, 0x32, 0x33, 0x34, 0x35, 0x36, 0x37, 0x38, 0x39, 0x61, 0x62, 0x63, 0x64, 0x65, 0x66]"
  by code_simp

lemma fromHexChar_digit:
  assumes "n < 16"
  shows "fromHexChar (hextable ! n) = (of_nat n, True)"
proof -
  have "list_all (\<lambda>n. fromHexChar (hextable ! n) = (of_nat n, True)) [0..<16]"
    by code_simp
  then show ?thesis using assms by (simp add: list_all_iff)
qed

lemma nibbles: "unat (drop_bit 4 (v :: byte)) = unat v div 16" "unat (v AND 0x0f :: byte) = unat v mod 16"
proof -
  show "unat (drop_bit 4 v) = unat v div 16"
    by (subst unsigned_drop_bit_eq) (simp add: drop_bit_eq_div take_bit_nat_eq_self unat_byte_less)
  show "unat (v AND 0x0f) = unat v mod 16"
    using take_bit_eq_mask [of 4 "unat v"]
    by (simp add: unsigned_and_eq mask_eq_exp_minus_1 take_bit_eq_mod)
qed

lemma nibbles_less: "unat (drop_bit 4 (v :: byte)) < 16" "unat (v AND 0x0f :: byte) < 16"
  using unat_byte_less [of v] by (simp_all add: nibbles)

lemma nibbles_join: "push_bit 4 (drop_bit 4 v) OR (v AND 0x0f) = (v :: byte)"
proof -
  have "v AND 0x0f = take_bit 4 v" by (simp add: take_bit_eq_mask mask_eq_exp_minus_1)
  moreover have "push_bit 4 (drop_bit 4 v) OR take_bit 4 v = v"
    by (rule bit_word_eqI) (auto simp: bit_simps)
  ultimately show ?thesis by simp
qed

subsection \<open>The loops\<close>

lemma hex_encode_loop_eq:
  assumes "i * 2 \<le> length dst"
  shows "hex_encode_loop dst i src =
    (if i * 2 + 2 * length src \<le> length dst then Inr (copy_at dst (i * 2) (concat (map hex_pair src)))
     else Inl (Panic ''index out of range''))"
  using assms
proof (induction dst i src rule: hex_encode_loop.induct)
  case (2 dst i v src)
  let ?a = "hextable ! unat (drop_bit 4 v)" and ?b = "hextable ! unat (v AND 0x0f)"
  show ?case
  proof (cases "i * 2 + 1 < length dst")
    case True
    then have "hex_encode_loop dst i (v # src) = hex_encode_loop (dst[i * 2 := ?a, i * 2 + 1 := ?b]) (i + 1) src"
      by simp
    moreover have "put dst (i * 2) ?a = Inr (dst[i * 2 := ?a])"
      "put (dst[i * 2 := ?a]) (i * 2 + 1) ?b = Inr (dst[i * 2 := ?a, i * 2 + 1 := ?b])"
      using True by simp_all
    note "2.IH" [OF this]
    ultimately show ?thesis using True by (simp add: hex_pair_def)
  next
    case False
    then show ?thesis by (cases "i * 2 < length dst") simp_all
  qed
qed simp

lemma hex_Encode_eq:
  "hex_Encode dst src =
    (if hex_EncodedLen (length src) \<le> length dst
     then Inr (concat (map hex_pair src) @ drop (2 * length src) dst, 2 * length src)
     else Inl (Panic ''index out of range''))"
proof -
  have "length (concat (map hex_pair src)) = 2 * length src"
    by (induction src) (simp_all add: hex_pair_def)
  then show ?thesis
    by (simp add: hex_Encode_def hex_encode_loop_eq hex_EncodedLen_def copy_at_eq mult.commute)
qed

lemma hex_decode_pair:
  "i < length dst \<Longrightarrow> hex_decode_loop dst i (hex_pair v @ src) = hex_decode_loop (dst[i := v]) (i + 1) src"
  using nibbles_less [of v] nibbles_join [of v] by (simp add: hex_pair_def fromHexChar_digit)

lemma hex_decode_loop_pairs:
  "i + length bs \<le> length dst \<Longrightarrow>
   hex_decode_loop dst i (concat (map hex_pair bs)) = Inr (copy_at dst i bs, None)"
  by (induction bs arbitrary: dst i) (simp_all add: hex_decode_pair)

lemma hex_decode_loop_error:
  assumes "even (length src)" and "i + length src div 2 \<le> length dst"
  shows "\<exists>dst'. hex_decode_loop dst i src = Inr (dst', map_option InvalidHexCharError (find (\<lambda>c. \<not> snd (fromHexChar c)) src))
    \<and> length dst' = length dst"
  using assms
proof (induction src arbitrary: dst i rule: induct_list012)
  case (3 c d src)
  obtain a ok where c: "fromHexChar c = (a, ok)" by fastforce
  obtain b ok' where d: "fromHexChar d = (b, ok')" by fastforce
  show ?case
  proof (cases "ok \<and> ok'")
    case True
    have "i < length dst" using "3.prems" by simp
    then have "\<exists>dst'. hex_decode_loop (dst[i := push_bit 4 a OR b]) (i + 1) src =
        Inr (dst', map_option InvalidHexCharError (find (\<lambda>c. \<not> snd (fromHexChar c)) src)) \<and>
        length dst' = length (dst[i := push_bit 4 a OR b])"
      using "3.prems" by (intro "3.IH"(1)) simp_all
    with True c d \<open>i < length dst\<close> show ?thesis by simp
  qed (use c d in auto)
qed auto

subsection \<open>Properties\<close>

text \<open>
  C18: the round trip. \<^verbatim>\<open>EncodeToString\<close> does not panic and gives two digits per byte, and
  \<^verbatim>\<open>DecodeString\<close> of them gives the bytes back without an error.
\<close>

theorem hex_roundtrip:
  "\<exists>s. hex_EncodeToString src = Inr s \<and> length s = hex_EncodedLen (length src) \<and>
     hex_DecodeString s = Inr (Some src, None)"
proof -
  have len: "length (concat (map hex_pair src)) = 2 * length src"
    by (induction src) (simp_all add: hex_pair_def)
  have "hex_EncodeToString src = Inr (concat (map hex_pair src))"
    by (simp add: hex_EncodeToString_def hex_Encode_eq hex_EncodedLen_def)
  moreover have "hex_DecodeString (concat (map hex_pair src)) = Inr (Some src, None)"
    using hex_decode_loop_pairs [of 0 src "replicate (length src) 0"]
    by (simp add: hex_DecodeString_def hex_Decode_def hex_DecodedLen_def len copy_at_eq)
  ultimately show ?thesis using len by (simp add: hex_EncodedLen_def)
qed

text \<open>
  C19: the errors of \<^verbatim>\<open>DecodeString\<close>. It never panics; a string of odd length is an
  \<^verbatim>\<open>OddLengthInputError\<close>; otherwise the first character that \<^verbatim>\<open>fromHexChar\<close> refuses is reported,
  and there is no error if there is none.
\<close>

theorem hex_decode_errors:
  "if odd (length s) then hex_DecodeString s = Inr (None, Some OddLengthInputError)
   else case find (\<lambda>c. \<not> snd (fromHexChar c)) s of
          Some c \<Rightarrow> hex_DecodeString s = Inr (None, Some (InvalidHexCharError c))
        | None \<Rightarrow> \<exists>bs. hex_DecodeString s = Inr (Some bs, None) \<and> length bs = length s div 2"
proof (cases "odd (length s)")
  case True
  then show ?thesis by (simp add: hex_DecodeString_def hex_Decode_def odd_iff_mod_2_eq_one)
next
  case False
  then obtain dst' where
    "hex_decode_loop (replicate (hex_DecodedLen (length s)) 0) 0 s =
       Inr (dst', map_option InvalidHexCharError (find (\<lambda>c. \<not> snd (fromHexChar c)) s))"
    "length dst' = length s div 2"
    using hex_decode_loop_error [of s 0 "replicate (hex_DecodedLen (length s)) 0"]
    by (auto simp: hex_DecodedLen_def)
  with False show ?thesis
    by (auto simp: hex_DecodeString_def hex_Decode_def even_iff_mod_2_eq_zero split: option.splits)
qed



end
