(* ===== verification/Io.thy ===== *)
theory Io
  imports Go_Prelude
begin

text \<open>
  The interfaces of package \<^verbatim>\<open>io\<close> and the functions over them. A value of \<^verbatim>\<open>io.Reader\<close> is a
  state with the method table \<open>reader_ops\<close>: \<open>r_Read ops r k\<close> is the call \<^verbatim>\<open>r.Read(p)\<close> with
  \<open>k = len(p)\<close>, and returns the new state, the bytes it stored at the start of \<^verbatim>\<open>p\<close> (their number
  is the count) and the error. A value of \<^verbatim>\<open>io.Writer\<close> is a state with \<open>writer_ops\<close>. The locales
  \<open>io_source\<close>, \<open>io_writer\<close> and \<open>io_sink\<close> state what the comments of the interfaces promise, and
  the functions of the package are proved correct inside them. A loop that calls \<^verbatim>\<open>Read\<close> until
  it fails need not end: it is a partial function, and not returning is the value \<open>None\<close>.
\<close>

text \<open>
  The values of \<^verbatim>\<open>os.Error\<close> that the modelled code returns; \<^verbatim>\<open>CorruptInputError\<close> is the type of that
  name in the text encodings, with its offset.
\<close>

datatype os_error = EOF | EINVAL | ErrShortWrite | ErrUnexpectedEOF | CorruptInputError nat | OtherError string

record 'r reader_ops =
  r_Read :: "'r \<Rightarrow> nat \<Rightarrow> 'r \<times> byte list \<times> os_error option"

record 'w writer_ops =
  w_Write :: "'w \<Rightarrow> byte list \<Rightarrow> 'w \<times> nat \<times> os_error option"

record 'f reader_at_ops =
  ra_ReadAt :: "'f \<Rightarrow> nat \<Rightarrow> int \<Rightarrow> 'f \<times> byte list \<times> os_error option"

subsection \<open>The code\<close>

definition io_WriteString :: "'w writer_ops \<Rightarrow> 'w \<Rightarrow> byte list \<Rightarrow> 'w \<times> nat \<times> os_error option" where
  "io_WriteString ops w s = w_Write ops w s"

text \<open>
  The loop of \<^verbatim>\<open>ReadAtLeast\<close>: \<open>len\<close> is \<^verbatim>\<open>len(buf)\<close> and \<open>got\<close> is \<^verbatim>\<open>buf[0:n]\<close>, what has been read so
  far.
\<close>

partial_function (option) ReadAtLeast_loop ::
    "'r reader_ops \<Rightarrow> nat \<Rightarrow> nat \<Rightarrow> 'r \<Rightarrow> byte list \<Rightarrow> ('r \<times> byte list \<times> os_error option) option" where
  "ReadAtLeast_loop ops len least r got =
     (if length got < least then
        (case r_Read ops r (len - length got) of (r, bs, e) \<Rightarrow>
           let got = got @ bs
           in (case e of
                 None \<Rightarrow> ReadAtLeast_loop ops len least r got
               | Some e \<Rightarrow> Some (r, got, Some (if e = EOF \<and> 0 < length got then ErrUnexpectedEOF else e))))
      else Some (r, got, None))"

definition io_ReadAtLeast ::
    "'r reader_ops \<Rightarrow> 'r \<Rightarrow> nat \<Rightarrow> nat \<Rightarrow> ('r \<times> byte list \<times> os_error option) option" where
  "io_ReadAtLeast ops r len least = ReadAtLeast_loop ops len least r []"

definition io_ReadFull :: "'r reader_ops \<Rightarrow> 'r \<Rightarrow> nat \<Rightarrow> ('r \<times> byte list \<times> os_error option) option" where
  "io_ReadFull ops r len = io_ReadAtLeast ops r len len"

text \<open>
  The body that the loops of \<^verbatim>\<open>Copyn\<close> and \<^verbatim>\<open>Copy\<close> share: write the \<^verbatim>\<open>nr\<close> bytes just read, if there
  are any. The last component is the error to leave the loop with.
\<close>

definition copy_chunk ::
    "'w writer_ops \<Rightarrow> 'w \<Rightarrow> byte list \<Rightarrow> nat \<Rightarrow> 'w \<times> nat \<times> os_error option" where
  "copy_chunk ops dst buf written =
     (if 0 < length buf then
        (case w_Write ops dst buf of (dst, nw, ew) \<Rightarrow>
           (dst, written + nw,
            if ew \<noteq> None then ew else if length buf \<noteq> nw then Some ErrShortWrite else None))
      else (dst, written, None))"

partial_function (option) Copyn_loop ::
    "'w writer_ops \<Rightarrow> 'r reader_ops \<Rightarrow> nat \<Rightarrow> 'w \<Rightarrow> 'r \<Rightarrow> nat \<Rightarrow> ('w \<times> 'r \<times> nat \<times> os_error option) option" where
  "Copyn_loop wops rops n dst src written =
     (if written < n then
        (case r_Read rops src (min (n - written) (32 * 1024)) of (src, buf, er) \<Rightarrow>
         case copy_chunk wops dst buf written of (dst, written, err) \<Rightarrow>
           if err \<noteq> None then Some (dst, src, written, err)
           else if er \<noteq> None then Some (dst, src, written, er)
           else Copyn_loop wops rops n dst src written)
      else Some (dst, src, written, None))"

partial_function (option) Copy_loop ::
    "'w writer_ops \<Rightarrow> 'r reader_ops \<Rightarrow> 'w \<Rightarrow> 'r \<Rightarrow> nat \<Rightarrow> ('w \<times> 'r \<times> nat \<times> os_error option) option" where
  "Copy_loop wops rops dst src written =
     (case r_Read rops src (32 * 1024) of (src, buf, er) \<Rightarrow>
      case copy_chunk wops dst buf written of (dst, written, err) \<Rightarrow>
        if err \<noteq> None then Some (dst, src, written, err)
        else if er = Some EOF then Some (dst, src, written, None)
        else if er \<noteq> None then Some (dst, src, written, er)
        else Copy_loop wops rops dst src written)"

text \<open>
  The type assertions \<^verbatim>\<open>dst.(ReaderFrom)\<close> and \<^verbatim>\<open>src.(WriterTo)\<close> are the optional methods
  \<open>ReadFrom\<close> and \<open>WriteTo\<close>.
\<close>

definition io_Copy ::
    "('w \<Rightarrow> 'r \<Rightarrow> ('w \<times> 'r \<times> nat \<times> os_error option) option) option \<Rightarrow>
     ('w \<Rightarrow> 'r \<Rightarrow> ('w \<times> 'r \<times> nat \<times> os_error option) option) option \<Rightarrow>
     'w writer_ops \<Rightarrow> 'r reader_ops \<Rightarrow> 'w \<Rightarrow> 'r \<Rightarrow> ('w \<times> 'r \<times> nat \<times> os_error option) option" where
  "io_Copy ReadFrom WriteTo wops rops dst src =
     (case ReadFrom of
        Some rt \<Rightarrow> rt dst src
      | None \<Rightarrow>
          (case WriteTo of
             Some wt \<Rightarrow> wt dst src
           | None \<Rightarrow> Copy_loop wops rops dst src 0))"

text \<open>\<^verbatim>\<open>limitedReader\<close>: the reader and the number of bytes left.\<close>

record 'r limitedReader =
  lr_r :: 'r
  lr_n :: int

definition io_LimitReader :: "'r \<Rightarrow> int \<Rightarrow> 'r limitedReader" where
  "io_LimitReader r n = \<lparr>lr_r = r, lr_n = n\<rparr>"

definition limitedReader_Read ::
    "'r reader_ops \<Rightarrow> 'r limitedReader \<Rightarrow> nat \<Rightarrow> 'r limitedReader \<times> byte list \<times> os_error option" where
  "limitedReader_Read ops l k =
     (if lr_n l \<le> 0 then (l, [], Some EOF)
      else case r_Read ops (lr_r l) (if int k > lr_n l then nat (lr_n l) else k) of (r, bs, e) \<Rightarrow>
             (\<lparr>lr_r = r, lr_n = lr_n l - int (length bs)\<rparr>, bs, e))"

definition limitedReader_ops :: "'r reader_ops \<Rightarrow> 'r limitedReader reader_ops" where
  "limitedReader_ops ops = \<lparr>r_Read = limitedReader_Read ops\<rparr>"

definition io_Copyn ::
    "('w \<Rightarrow> 'r limitedReader \<Rightarrow> ('w \<times> 'r limitedReader \<times> nat \<times> os_error option) option) option \<Rightarrow>
     'w writer_ops \<Rightarrow> 'r reader_ops \<Rightarrow> 'w \<Rightarrow> 'r \<Rightarrow> nat \<Rightarrow> ('w \<times> 'r \<times> nat \<times> os_error option) option" where
  "io_Copyn ReadFrom wops rops dst src n =
     (case ReadFrom of
        Some rt \<Rightarrow>
          (case rt dst (io_LimitReader src (int n)) of
             None \<Rightarrow> None
           | Some (dst, l, written, err) \<Rightarrow> Some (dst, lr_r l, written, err))
      | None \<Rightarrow> Copyn_loop wops rops n dst src 0)"

text \<open>\<^verbatim>\<open>SectionReader\<close>.\<close>

record 'f SectionReader =
  sr_r :: 'f
  sr_base :: int
  sr_off :: int
  sr_limit :: int

definition io_NewSectionReader :: "'f \<Rightarrow> int \<Rightarrow> int \<Rightarrow> 'f SectionReader" where
  "io_NewSectionReader r off n = \<lparr>sr_r = r, sr_base = off, sr_off = off, sr_limit = off + n\<rparr>"

definition SectionReader_Read ::
    "'f reader_at_ops \<Rightarrow> 'f SectionReader \<Rightarrow> nat \<Rightarrow> 'f SectionReader \<times> byte list \<times> os_error option" where
  "SectionReader_Read ops s k =
     (if sr_off s \<ge> sr_limit s then (s, [], Some EOF)
      else let max = sr_limit s - sr_off s
           in case ra_ReadAt ops (sr_r s) (if int k > max then nat max else k) (sr_off s) of (f, bs, e) \<Rightarrow>
                (s\<lparr>sr_r := f, sr_off := sr_off s + int (length bs)\<rparr>, bs, e))"

definition SectionReader_Seek ::
    "'f SectionReader \<Rightarrow> int \<Rightarrow> int \<Rightarrow> 'f SectionReader \<times> int \<times> os_error option" where
  "SectionReader_Seek s offset whence =
     (if whence \<notin> {0, 1, 2} then (s, 0, Some EINVAL)
      else let offset = offset + (if whence = 0 then sr_base s else if whence = 1 then sr_off s else sr_limit s)
           in if offset < sr_off s \<or> offset > sr_limit s then (s, 0, Some EINVAL)
              else (s\<lparr>sr_off := offset\<rparr>, offset - sr_base s, None))"

definition SectionReader_ReadAt ::
    "'f reader_at_ops \<Rightarrow> 'f SectionReader \<Rightarrow> nat \<Rightarrow> int \<Rightarrow> 'f SectionReader \<times> byte list \<times> os_error option" where
  "SectionReader_ReadAt ops s k off =
     (if off < 0 \<or> off \<ge> sr_limit s - sr_base s then (s, [], Some EOF)
      else let off = off + sr_base s;
               max = sr_limit s - off
           in case ra_ReadAt ops (sr_r s) (if int k > max then nat max else k) off of (f, bs, e) \<Rightarrow>
                (s\<lparr>sr_r := f\<rparr>, bs, e))"

definition SectionReader_Size :: "'f SectionReader \<Rightarrow> int" where
  "SectionReader_Size s = sr_limit s - sr_base s"

definition SectionReader_ops :: "'f reader_at_ops \<Rightarrow> 'f SectionReader reader_ops" where
  "SectionReader_ops ops = \<lparr>r_Read = SectionReader_Read ops\<rparr>"

declare ReadAtLeast_loop.simps [code] Copyn_loop.simps [code] Copy_loop.simps [code]

subsection \<open>The contracts\<close>

text \<open>
  A reader that delivers the bytes \<open>src r\<close> and then \<^verbatim>\<open>os.EOF\<close>, as the comment of \<^verbatim>\<open>Reader\<close> says:
  a call stores at most \<^verbatim>\<open>len(p)\<close> bytes, it may return the last bytes together with the error,
  and it does not return 0 bytes without one, unless \<^verbatim>\<open>p\<close> is empty. \<open>ok\<close> is the invariant of the
  implementation.
\<close>

locale io_source =
  fixes rops :: "'r reader_ops"
    and rok :: "'r \<Rightarrow> bool"
    and src :: "'r \<Rightarrow> byte list"
  assumes Read_ok: "rok r \<Longrightarrow> r_Read rops r k = (r', bs, e) \<Longrightarrow> rok r'"
    and Read_src: "rok r \<Longrightarrow> r_Read rops r k = (r', bs, e) \<Longrightarrow> src r = bs @ src r'"
    and Read_len: "rok r \<Longrightarrow> r_Read rops r k = (r', bs, e) \<Longrightarrow> length bs \<le> k"
    and Read_progress: "rok r \<Longrightarrow> r_Read rops r k = (r', bs, None) \<Longrightarrow> 0 < k \<Longrightarrow> bs \<noteq> []"
    and Read_EOF: "rok r \<Longrightarrow> r_Read rops r k = (r', bs, Some x) \<Longrightarrow> x = EOF \<and> src r' = []"
begin

lemma Read_shorter:
  "rok r \<Longrightarrow> r_Read rops r k = (r', bs, None) \<Longrightarrow> 0 < k \<Longrightarrow> length (src r') < length (src r)"
  using Read_src [of r k r' bs None] Read_progress [of r k r' bs] by simp

text \<open>\<^verbatim>\<open>ReadAtLeast\<close> returns, and what it returns is the start of the stream.\<close>

lemma ReadAtLeast_loop_source:
  "rok r \<Longrightarrow> length got \<le> len \<Longrightarrow> least \<le> len \<Longrightarrow>
   \<exists>r' bs e. ReadAtLeast_loop rops len least r got = Some (r', got @ bs, e) \<and>
     rok r' \<and> src r = bs @ src r' \<and> length (got @ bs) \<le> len \<and>
     (e = None \<longrightarrow> least \<le> length (got @ bs)) \<and>
     (e \<noteq> None \<longrightarrow> src r' = [] \<and> e = Some (if got @ bs = [] then EOF else ErrUnexpectedEOF))"
proof (induction "length (src r)" arbitrary: r got rule: less_induct)
  case less
  show ?case
  proof (cases "length got < least")
    case False
    then show ?thesis using less.prems by (simp add: ReadAtLeast_loop.simps [of rops len least r got])
  next
    case True
    obtain r' bs e where rd: "r_Read rops r (len - length got) = (r', bs, e)" by (metis prod_cases3)
    note laws = Read_ok [OF less.prems(1) rd] Read_src [OF less.prems(1) rd] Read_len [OF less.prems(1) rd]
    show ?thesis
    proof (cases e)
      case None
      have "length (src r') < length (src r)"
        using Read_shorter [OF less.prems(1)] rd None True less.prems by simp
      moreover have "length (got @ bs) \<le> len" using laws less.prems by simp
      ultimately obtain r2 bs2 e2 where
          "ReadAtLeast_loop rops len least r' (got @ bs) = Some (r2, (got @ bs) @ bs2, e2)" "rok r2"
          "src r' = bs2 @ src r2" "length ((got @ bs) @ bs2) \<le> len"
          "e2 = None \<longrightarrow> least \<le> length ((got @ bs) @ bs2)"
          "e2 \<noteq> None \<longrightarrow> src r2 = [] \<and> e2 = Some (if (got @ bs) @ bs2 = [] then EOF else ErrUnexpectedEOF)"
        using less.hyps [of r' "got @ bs"] laws(1) less.prems(3) by blast
      then show ?thesis using True rd None laws
        by (intro exI [of _ r2] exI [of _ "bs @ bs2"] exI [of _ e2])
          (simp add: ReadAtLeast_loop.simps [of rops len least r got] Let_def)
    next
      case (Some x)
      then have "x = EOF" "src r' = []" using Read_EOF [OF less.prems(1)] rd by auto
      then show ?thesis using True rd Some laws less.prems
        by (auto simp: ReadAtLeast_loop.simps [of rops len least r got] Let_def)
    qed
  qed
qed

lemma ReadAtLeast_source:
  assumes "rok r" and "least \<le> len"
  shows "\<exists>r' bs e. io_ReadAtLeast rops r len least = Some (r', bs, e) \<and> rok r' \<and> src r = bs @ src r' \<and>
     length bs \<le> len \<and> (e = None \<longrightarrow> least \<le> length bs) \<and>
     (e \<noteq> None \<longrightarrow> src r' = [] \<and> e = Some (if bs = [] then EOF else ErrUnexpectedEOF))"
  using ReadAtLeast_loop_source [OF assms(1) _ assms(2), of "[]"] by (simp add: io_ReadAtLeast_def)

lemma ReadFull_source:
  assumes "rok r" and "len \<le> length (src r)"
  shows "\<exists>r' e. io_ReadFull rops r len = Some (r', take len (src r), e) \<and> rok r' \<and> src r' = drop len (src r)"
proof -
  obtain r' bs e where bs: "io_ReadAtLeast rops r len len = Some (r', bs, e)" "rok r'" "src r = bs @ src r'"
      "length bs \<le> len" "e = None \<longrightarrow> len \<le> length bs" "e \<noteq> None \<longrightarrow> src r' = []"
    using ReadAtLeast_source [OF assms(1), of len len] by blast
  moreover from bs have "length bs = len" using assms(2) by (cases e) auto
  ultimately show ?thesis by (auto simp: io_ReadFull_def)
qed

text \<open>A limited reader delivers the first \<^verbatim>\<open>n\<close> bytes.\<close>

lemma limited_source:
  "io_source (limitedReader_ops rops) (\<lambda>l. rok (lr_r l)) (\<lambda>l. take (nat (lr_n l)) (src (lr_r l)))"
proof (unfold_locales, goal_cases)
  case (1 l k l' bs e)
  then show ?case
    by (auto simp: limitedReader_ops_def limitedReader_Read_def split: if_splits prod.splits dest: Read_ok)
next
  case (2 l k l' bs e)
  show ?case
  proof (cases "lr_n l \<le> 0")
    case True
    then show ?thesis using 2 by (simp add: limitedReader_ops_def limitedReader_Read_def)
  next
    case False
    then obtain r' where rd: "r_Read rops (lr_r l) (if int k > lr_n l then nat (lr_n l) else k) = (r', bs, e)"
        and l': "l' = \<lparr>lr_r = r', lr_n = lr_n l - int (length bs)\<rparr>"
      using 2 by (auto simp: limitedReader_ops_def limitedReader_Read_def split: prod.splits)
    have "src (lr_r l) = bs @ src r'" "length bs \<le> nat (lr_n l)"
      using Read_src [OF 2(1) rd] Read_len [OF 2(1) rd] False by (auto split: if_splits)
    moreover have "nat (lr_n l - int (length bs)) = nat (lr_n l) - length bs" by simp
    ultimately show ?thesis by (simp add: l')
  qed
next
  case (3 l k l' bs e)
  then show ?case
    by (auto simp: limitedReader_ops_def limitedReader_Read_def split: if_splits prod.splits dest!: Read_len)
next
  case (4 l k l' bs)
  then show ?case
    by (auto simp: limitedReader_ops_def limitedReader_Read_def split: if_splits prod.splits dest!: Read_progress)
next
  case (5 l k l' bs x)
  then show ?case
    by (auto simp: limitedReader_ops_def limitedReader_Read_def split: if_splits prod.splits dest!: Read_EOF)
qed

end

text \<open>
  A writer that keeps the comment of \<^verbatim>\<open>Writer\<close>: \<open>out w\<close> is what has been written to it; a call
  writes the first \<open>n\<close> bytes, and all of them unless it returns an error. An \<open>io_sink\<close> never does.
\<close>

locale io_writer =
  fixes wops :: "'w writer_ops"
    and wok :: "'w \<Rightarrow> bool"
    and out :: "'w \<Rightarrow> byte list"
  assumes Write_ok: "wok w \<Longrightarrow> w_Write wops w p = (w', n, e) \<Longrightarrow> wok w'"
    and Write_out: "wok w \<Longrightarrow> w_Write wops w p = (w', n, e) \<Longrightarrow> out w' = out w @ take n p"
    and Write_count: "wok w \<Longrightarrow> w_Write wops w p = (w', n, e) \<Longrightarrow> n \<le> length p"
    and Write_short: "wok w \<Longrightarrow> w_Write wops w p = (w', n, None) \<Longrightarrow> n = length p"

locale io_sink = io_writer +
  assumes Write_no_error: "wok w \<Longrightarrow> w_Write wops w p = (w', n, e) \<Longrightarrow> e = None"

locale io_copy = io_source + io_writer
begin

lemma copy_chunk_writes:
  assumes "wok w" and "copy_chunk wops w buf written = (w', written', err)"
  shows "wok w' \<and> written \<le> written' \<and> written' - written \<le> length buf \<and>
    out w' = out w @ take (written' - written) buf \<and> (err = None \<longrightarrow> written' = written + length buf)"
  using assms Write_ok [OF assms(1)] Write_out [OF assms(1)] Write_count [OF assms(1)] Write_short [OF assms(1)]
  by (auto simp: copy_chunk_def split: if_splits prod.splits)

text \<open>
  \<^verbatim>\<open>Copy\<close> returns. It has copied a start of the stream, whose length it reports, and all of it
  if there was no error.
\<close>

lemma Copy_loop_copies:
  "rok r \<Longrightarrow> wok w \<Longrightarrow>
   \<exists>w' r' n e. Copy_loop wops rops w r written = Some (w', r', written + n, e) \<and> wok w' \<and> rok r' \<and>
     n \<le> length (src r) \<and> out w' = out w @ take n (src r) \<and> (e = None \<longrightarrow> n = length (src r) \<and> src r' = [])"
proof (induction "length (src r)" arbitrary: r w written rule: less_induct)
  case less
  obtain r1 buf er where rd: "r_Read rops r (32 * 1024) = (r1, buf, er)" by (metis prod_cases3)
  obtain w1 wr1 err where wr: "copy_chunk wops w buf written = (w1, wr1, err)" by (metis prod_cases3)
  note laws = Read_ok [OF less.prems(1) rd] Read_src [OF less.prems(1) rd] copy_chunk_writes [OF less.prems(2) wr]
  note step = Copy_loop.simps [of wops rops w r written]
  show ?case
  proof (cases "err = None \<and> er = None")
    case True
    then have "length (src r1) < length (src r)"
      using Read_shorter [OF less.prems(1)] rd by simp
    then obtain w' r' n e where IH: "Copy_loop wops rops w1 r1 wr1 = Some (w', r', wr1 + n, e)" "wok w'" "rok r'"
        "n \<le> length (src r1)" "out w' = out w1 @ take n (src r1)"
        "e = None \<longrightarrow> n = length (src r1) \<and> src r' = []"
      using less.hyps [of r1 w1 wr1] laws by blast
    have "Copy_loop wops rops w r written = Some (w', r', written + (length buf + n), e)"
      using IH True rd wr laws by (simp add: step add.assoc)
    moreover have "out w' = out w @ take (length buf + n) (src r)" using IH laws True by simp
    ultimately show ?thesis using IH laws True
      by (intro exI [of _ w'] exI [of _ r'] exI [of _ "length buf + n"] exI [of _ e]) simp
  next
    case False
    have er: "er = None \<or> (er = Some EOF \<and> src r1 = [])"
      using Read_EOF [OF less.prems(1)] rd by (cases er) auto
    have "Copy_loop wops rops w r written = Some (w1, r1, written + (wr1 - written), err)"
      using False er rd wr laws by (auto simp: step)
    then show ?thesis using laws er False
      by (intro exI [of _ w1] exI [of _ r1] exI [of _ "wr1 - written"] exI [of _ err]) auto
  qed
qed

end

locale io_copy_sink = io_copy rops rok src wops wok out + io_sink wops wok out
  for rops :: "'r reader_ops" and rok :: "'r \<Rightarrow> bool" and src :: "'r \<Rightarrow> byte list"
    and wops :: "'w writer_ops" and wok :: "'w \<Rightarrow> bool" and out :: "'w \<Rightarrow> byte list"
begin

lemma Copy_loop_no_error:
  "rok r \<Longrightarrow> wok w \<Longrightarrow> Copy_loop wops rops w r written = Some (w', r', n, e) \<Longrightarrow> e = None"
proof (induction "length (src r)" arbitrary: r w written rule: less_induct)
  case less
  obtain r1 buf er where rd: "r_Read rops r (32 * 1024) = (r1, buf, er)" by (metis prod_cases3)
  obtain w1 wr1 err where wr: "copy_chunk wops w buf written = (w1, wr1, err)" by (metis prod_cases3)
  have "err = None"
    using wr Write_no_error [OF less.prems(2), of buf] Write_short [OF less.prems(2), of buf]
    by (auto simp: copy_chunk_def split: if_splits prod.splits)
  moreover have "er = None \<or> er = Some EOF"
    using Read_EOF [OF less.prems(1)] rd by (cases er) auto
  ultimately show ?case
    using less.hyps [of r1 w1 wr1] less.prems Read_ok [OF less.prems(1) rd] copy_chunk_writes [OF less.prems(2) wr]
      Read_shorter [OF less.prems(1)] rd wr
    by (auto simp: Copy_loop.simps [of wops rops w r written])
qed

end

subsection \<open>Properties\<close>



text \<open>
  \<^verbatim>\<open>ReadAtLeast\<close> returns \<^verbatim>\<open>ErrUnexpectedEOF\<close> although it has read enough, when the reader
  returns the last bytes together with \<^verbatim>\<open>os.EOF\<close>, as \<^verbatim>\<open>Reader\<close> allows; its comment promises an
  error only if fewer bytes were read.
\<close>

theorem ReadAtLeast_spurious_EOF:
  assumes "r_Read ops r len = (r', bs, Some EOF)" and "0 < least" and "least \<le> length bs"
  shows "io_ReadAtLeast ops r len least = Some (r', bs, Some ErrUnexpectedEOF)"
proof -
  have "bs \<noteq> []" using assms(2,3) by auto
  then show ?thesis using assms
    by (simp add: io_ReadAtLeast_def ReadAtLeast_loop.simps [of ops len least r "[]"] Let_def)
qed

theorem ReadAtLeast_spurious_EOF_witness:
  "io_ReadAtLeast \<lparr>r_Read = \<lambda>r k. (drop k r, take k r, if length r \<le> k then Some EOF else None)\<rparr> [1, 2, 3] 4 3 =
     Some ([], [1, 2, 3], Some ErrUnexpectedEOF)"
  by (rule ReadAtLeast_spurious_EOF) simp_all

end
