(* ===== verification/Bytes_Buffer.thy ===== *)
theory Bytes_Buffer
  imports Io Utf8
begin

text \<open>
  \<^verbatim>\<open>bytes.Buffer\<close>. The slice \<^verbatim>\<open>b.buf\<close> is its elements \<open>buf_data\<close>, the cells behind them up to the
  capacity \<open>buf_spare\<close>, and whether it is nil; slicing up to the capacity exposes spare cells. The
  array \<^verbatim>\<open>bootstrap\<close> holds zeros until it becomes the memory of \<^verbatim>\<open>b.buf\<close> and is not read otherwise,
  so it has no field. The abstraction is \<^verbatim>\<open>Bytes\<close>, a queue: writes append to it, reads take from
  its front. The buffer is then shown to be a source and a sink of package \<^verbatim>\<open>io\<close>.
\<close>

subsection \<open>The code\<close>

record buffer =
  buf_data :: "byte list"
  buf_spare :: "byte list"
  buf_nil :: bool
  buf_off :: nat
  buf_runeBytes :: "byte list"

definition buffer_zero :: buffer where
  "buffer_zero = \<lparr>buf_data = [], buf_spare = [], buf_nil = True, buf_off = 0, buf_runeBytes = replicate UTFMax 0\<rparr>"

definition buf_cap :: "buffer \<Rightarrow> nat" where
  "buf_cap b = length (buf_data b) + length (buf_spare b)"

text \<open>\<^verbatim>\<open>b.buf = b.buf[0 : hi]\<close>\<close>

definition buf_reslice :: "buffer \<Rightarrow> nat \<Rightarrow> buffer" where
  "buf_reslice b hi =
     b\<lparr>buf_data := take hi (buf_data b @ buf_spare b), buf_spare := drop hi (buf_data b @ buf_spare b)\<rparr>"

definition buffer_Bytes :: "buffer \<Rightarrow> byte list" where
  "buffer_Bytes b = drop (buf_off b) (buf_data b)"

text \<open>\<^verbatim>\<open>String\<close> of a pointer: \<open>None\<close> is nil.\<close>

definition buffer_String :: "buffer option \<Rightarrow> byte list" where
  "buffer_String b =
     (case b of None \<Rightarrow> bytes_of ''<nil>'' | Some b \<Rightarrow> drop (buf_off b) (buf_data b))"

definition buffer_Len :: "buffer \<Rightarrow> nat" where
  "buffer_Len b = length (buf_data b) - buf_off b"

definition buffer_Truncate :: "buffer \<Rightarrow> nat \<Rightarrow> buffer go" where
  "buffer_Truncate b n =
     (let b = (if n = 0 then b\<lparr>buf_off := 0\<rparr> else b)
      in if buf_off b + n \<le> buf_cap b then Inr (buf_reslice b (buf_off b + n))
         else Inl (Panic ''slice bounds out of range''))"

text \<open>\<^verbatim>\<open>b.Truncate(0)\<close>, which does not panic.\<close>

definition buffer_Reset :: "buffer \<Rightarrow> buffer" where
  "buffer_Reset b = buf_reslice (b\<lparr>buf_off := 0\<rparr>) 0"

definition buffer_grow :: "buffer \<Rightarrow> nat \<Rightarrow> buffer \<times> nat" where
  "buffer_grow b n =
     (let m = buffer_Len b;
          b = (if m = 0 \<and> buf_off b \<noteq> 0 then buffer_Reset b else b);
          b = (if length (buf_data b) + n > buf_cap b
               then let buf = (if buf_nil b \<and> n \<le> 64 then replicate 64 0
                               else copy_at (replicate (2 * buf_cap b + n) 0) 0 (drop (buf_off b) (buf_data b)))
                    in b\<lparr>buf_data := buf, buf_spare := [], buf_nil := False, buf_off := 0\<rparr>
               else b)
      in (buf_reslice b (buf_off b + m + n), buf_off b + m))"

definition buffer_Write :: "buffer \<Rightarrow> byte list \<Rightarrow> buffer \<times> nat \<times> os_error option" where
  "buffer_Write b p =
     (case buffer_grow b (length p) of (b, m) \<Rightarrow>
        (b\<lparr>buf_data := copy_at (buf_data b) m p\<rparr>, length p, None))"

definition buffer_WriteString :: "buffer \<Rightarrow> byte list \<Rightarrow> buffer \<times> nat \<times> os_error option" where
  "buffer_WriteString b s =
     (case buffer_grow b (length s) of (b, m) \<Rightarrow>
        (b\<lparr>buf_data := copy_at (buf_data b) m s\<rparr>, length s, None))"

definition buffer_MinRead :: nat where "buffer_MinRead = 512"

text \<open>The part of the loop of \<^verbatim>\<open>ReadFrom\<close> that makes room for a read.\<close>

definition buffer_room :: "buffer \<Rightarrow> buffer" where
  "buffer_room b =
     (if buf_cap b - length (buf_data b) < buffer_MinRead then
        (let rest = drop (buf_off b) (buf_data b);
             newBuf =
               (if buf_off b + buf_cap b - length (buf_data b) \<ge> buffer_MinRead
                then buf_reslice b (length (buf_data b) - buf_off b)
                else b\<lparr>buf_data := replicate (length (buf_data b) - buf_off b) 0,
                       buf_spare := replicate (2 * (buf_cap b - buf_off b) + buffer_MinRead
                                               - (length (buf_data b) - buf_off b)) 0,
                       buf_nil := False\<rparr>)
         in newBuf\<lparr>buf_data := copy_at (buf_data newBuf) 0 rest, buf_off := 0\<rparr>)
      else b)"

partial_function (option) buffer_ReadFrom_loop ::
    "'r reader_ops \<Rightarrow> buffer \<Rightarrow> 'r \<Rightarrow> nat \<Rightarrow> (buffer \<times> 'r \<times> nat \<times> os_error option) option" where
  "buffer_ReadFrom_loop ops b r n =
     (let b = buffer_room b
      in case r_Read ops r (buf_cap b - length (buf_data b)) of (r, bs, e) \<Rightarrow>
           let b = b\<lparr>buf_data := buf_data b @ bs, buf_spare := drop (length bs) (buf_spare b)\<rparr>;
               n = n + length bs
           in if e = Some EOF then Some (b, r, n, None)
              else if e \<noteq> None then Some (b, r, n, e)
              else buffer_ReadFrom_loop ops b r n)"

definition buffer_ReadFrom ::
    "'r reader_ops \<Rightarrow> buffer \<Rightarrow> 'r \<Rightarrow> (buffer \<times> 'r \<times> nat \<times> os_error option) option" where
  "buffer_ReadFrom ops b r =
     buffer_ReadFrom_loop ops (if buf_off b \<ge> length (buf_data b) then buffer_Reset b else b) r 0"

partial_function (option) buffer_WriteTo_loop ::
    "'w writer_ops \<Rightarrow> 'w \<Rightarrow> buffer \<Rightarrow> nat \<Rightarrow> ('w \<times> buffer \<times> nat \<times> os_error option) option" where
  "buffer_WriteTo_loop ops w b n =
     (if buf_off b < length (buf_data b) then
        (case w_Write ops w (drop (buf_off b) (buf_data b)) of (w, m, e) \<Rightarrow>
           let n = n + m; b = b\<lparr>buf_off := buf_off b + m\<rparr>
           in if e \<noteq> None then Some (w, b, n, e) else buffer_WriteTo_loop ops w b n)
      else Some (w, buffer_Reset b, n, None))"

definition buffer_WriteTo ::
    "'w writer_ops \<Rightarrow> 'w \<Rightarrow> buffer \<Rightarrow> ('w \<times> buffer \<times> nat \<times> os_error option) option" where
  "buffer_WriteTo ops w b = buffer_WriteTo_loop ops w b 0"

definition buffer_WriteByte :: "buffer \<Rightarrow> byte \<Rightarrow> buffer \<times> os_error option" where
  "buffer_WriteByte b c = (case buffer_grow b 1 of (b, m) \<Rightarrow> (b\<lparr>buf_data := (buf_data b)[m := c]\<rparr>, None))"

definition buffer_WriteRune :: "buffer \<Rightarrow> int \<Rightarrow> (buffer \<times> nat \<times> os_error option) go" where
  "buffer_WriteRune b r =
     (if r < uint RuneSelf then Inr (fst (buffer_WriteByte b (word_of_int r)), 1, None)
      else go_bind (EncodeRune r (buf_runeBytes b)) (\<lambda>(rb, n).
             Inr (fst (buffer_Write (b\<lparr>buf_runeBytes := rb\<rparr>) (take n rb)), n, None)))"

definition buffer_Read :: "buffer \<Rightarrow> nat \<Rightarrow> buffer \<times> byte list \<times> os_error option" where
  "buffer_Read b k =
     (if buf_off b \<ge> length (buf_data b) then (buffer_Reset b, [], Some EOF)
      else let bs = take k (drop (buf_off b) (buf_data b))
           in (b\<lparr>buf_off := buf_off b + length bs\<rparr>, bs, None))"

definition buffer_Next :: "buffer \<Rightarrow> nat \<Rightarrow> buffer \<times> byte list" where
  "buffer_Next b n =
     (let m = buffer_Len b; n = (if n > m then m else n)
      in (b\<lparr>buf_off := buf_off b + n\<rparr>, take n (drop (buf_off b) (buf_data b))))"

definition buffer_ReadByte :: "buffer \<Rightarrow> buffer \<times> byte \<times> os_error option" where
  "buffer_ReadByte b =
     (if buf_off b \<ge> length (buf_data b) then (buffer_Reset b, 0, Some EOF)
      else (b\<lparr>buf_off := buf_off b + 1\<rparr>, buf_data b ! buf_off b, None))"

definition buffer_ReadRune :: "buffer \<Rightarrow> buffer \<times> int \<times> nat \<times> os_error option" where
  "buffer_ReadRune b =
     (if buf_off b \<ge> length (buf_data b) then (buffer_Reset b, 0, 0, Some EOF)
      else let c = buf_data b ! buf_off b
           in if c < RuneSelf then (b\<lparr>buf_off := buf_off b + 1\<rparr>, uint c, 1, None)
              else case DecodeRune (drop (buf_off b) (buf_data b)) of (r, n) \<Rightarrow>
                     (b\<lparr>buf_off := buf_off b + n\<rparr>, r, n, None))"

text \<open>\<^verbatim>\<open>NewBuffer\<close> of a slice given by its elements, its spare cells and whether it is nil.\<close>

definition buffer_NewBuffer :: "byte list \<Rightarrow> byte list \<Rightarrow> bool \<Rightarrow> buffer" where
  "buffer_NewBuffer buf spare isnil = buffer_zero\<lparr>buf_data := buf, buf_spare := spare, buf_nil := isnil\<rparr>"

definition buffer_NewBufferString :: "byte list \<Rightarrow> buffer" where
  "buffer_NewBufferString s =
     buffer_zero\<lparr>buf_data := copy_at (replicate (length s) 0) 0 s, buf_nil := False\<rparr>"

definition buffer_reader :: "buffer reader_ops" where
  "buffer_reader = \<lparr>r_Read = buffer_Read\<rparr>"

definition buffer_writer :: "buffer writer_ops" where
  "buffer_writer = \<lparr>w_Write = buffer_Write\<rparr>"

declare buffer_ReadFrom_loop.simps [code] buffer_WriteTo_loop.simps [code]

subsection \<open>The invariant\<close>

definition buffer_ok :: "buffer \<Rightarrow> bool" where
  "buffer_ok b \<longleftrightarrow> buf_off b \<le> length (buf_data b) \<and> (buf_nil b \<longrightarrow> buf_data b = [] \<and> buf_spare b = []) \<and>
     length (buf_runeBytes b) = UTFMax"

lemma buffer_Reset_simps [simp]:
  "buf_data (buffer_Reset b) = []" "buf_spare (buffer_Reset b) = buf_data b @ buf_spare b"
  "buf_off (buffer_Reset b) = 0" "buf_nil (buffer_Reset b) = buf_nil b"
  "buf_runeBytes (buffer_Reset b) = buf_runeBytes b"
  by (simp_all add: buffer_Reset_def buf_reslice_def)

lemma buf_reslice_simps [simp]:
  "buf_off (buf_reslice b hi) = buf_off b" "buf_nil (buf_reslice b hi) = buf_nil b"
  "buf_runeBytes (buf_reslice b hi) = buf_runeBytes b"
  by (simp_all add: buf_reslice_def)

lemma buffer_Len_Bytes: "buffer_Len b = length (buffer_Bytes b)"
  by (simp add: buffer_Bytes_def buffer_Len_def)

lemma buffer_zero_ok: "buffer_ok buffer_zero" "buffer_Bytes buffer_zero = []"
  by (simp_all add: buffer_ok_def buffer_zero_def buffer_Bytes_def)

lemma buffer_NewBuffer_ok:
  "buffer_ok (buffer_NewBuffer buf spare False) \<and> buffer_Bytes (buffer_NewBuffer buf spare False) = buf \<and>
   buffer_ok (buffer_NewBuffer [] [] True)"
  by (simp add: buffer_ok_def buffer_Bytes_def buffer_NewBuffer_def buffer_zero_def)

lemma buffer_NewBufferString_ok: "buffer_ok (buffer_NewBufferString s) \<and> buffer_Bytes (buffer_NewBufferString s) = s"
  by (simp add: buffer_ok_def buffer_Bytes_def buffer_NewBufferString_def buffer_zero_def copy_at_all)

lemma buffer_Reset_ok: "buffer_ok b \<Longrightarrow> buffer_ok (buffer_Reset b) \<and> buffer_Bytes (buffer_Reset b) = []"
  by (simp add: buffer_ok_def buffer_Bytes_def)

text \<open>
  \<^verbatim>\<open>grow\<close> keeps the unread bytes in front of the place it returns and makes room for \<open>n\<close> more.
\<close>

lemma buffer_Truncate_0: "buffer_Truncate b 0 = Inr (buffer_Reset b)"
  by (simp add: buffer_Truncate_def buffer_Reset_def)

lemma buf_reslice_ok:
  assumes "buffer_ok b" and "buf_off b \<le> hi" and "hi \<le> buf_cap b"
  shows "buffer_ok (buf_reslice b hi) \<and> length (buf_data (buf_reslice b hi)) = hi \<and>
    buffer_Bytes (buf_reslice b hi) = take (hi - buf_off b) (drop (buf_off b) (buf_data b @ buf_spare b))"
proof -
  define mem where "mem = buf_data b @ buf_spare b"
  have "length mem = buf_cap b" "buf_data (buf_reslice b hi) = take hi mem"
      "buf_spare (buf_reslice b hi) = drop hi mem"
    by (simp_all add: mem_def buf_cap_def buf_reslice_def)
  moreover have "buf_nil b \<longrightarrow> mem = []" using assms(1) by (simp add: mem_def buffer_ok_def)
  ultimately show ?thesis
    using assms by (simp add: buffer_ok_def buffer_Bytes_def drop_take flip: mem_def)
qed

lemma buffer_grow_ok:
  assumes "buffer_ok b" and "buffer_grow b n = (b', m)"
  shows "buffer_ok b' \<and> m = buf_off b' + buffer_Len b \<and> length (buf_data b') = m + n \<and>
    take (buffer_Len b) (buffer_Bytes b') = buffer_Bytes b"
proof -
  define b1 where "b1 = (if buffer_Len b = 0 \<and> buf_off b \<noteq> 0 then buffer_Reset b else b)"
  have b1: "buffer_ok b1" "buffer_Bytes b1 = buffer_Bytes b" "buffer_Len b1 = buffer_Len b"
    using assms(1) by (auto simp: b1_def buffer_ok_def buffer_Bytes_def buffer_Len_def)
  define b2 where "b2 =
      (if length (buf_data b1) + n > buf_cap b1
       then b1\<lparr>buf_data := if buf_nil b1 \<and> n \<le> 64 then replicate 64 0
                 else copy_at (replicate (2 * buf_cap b1 + n) 0) 0 (drop (buf_off b1) (buf_data b1)),
               buf_spare := [], buf_nil := False, buf_off := 0\<rparr>
       else b1)"
  have b2: "buffer_ok b2 \<and> buf_off b2 + buffer_Len b1 + n \<le> buf_cap b2 \<and>
      take (buffer_Len b1) (drop (buf_off b2) (buf_data b2 @ buf_spare b2)) = buffer_Bytes b1"
    using b1(1) by (auto simp: b2_def buffer_ok_def buffer_Bytes_def buffer_Len_def buf_cap_def copy_at_eq)
  moreover have eq: "b' = buf_reslice b2 (buf_off b2 + buffer_Len b + n)" "m = buf_off b2 + buffer_Len b"
    using assms(2) by (auto simp: buffer_grow_def Let_def b1_def b2_def)
  ultimately have "buffer_Bytes b' = take (buffer_Len b + n) (drop (buf_off b2) (buf_data b2 @ buf_spare b2))"
      "buffer_ok b'" "length (buf_data b') = m + n" "buf_off b' = buf_off b2"
    using buf_reslice_ok [of b2 "buf_off b2 + buffer_Len b + n"] b1(3) by auto
  then show ?thesis using b1 b2 eq by (simp add: min_def del: drop_append take_append)
qed

lemma buffer_put_ok:
  assumes "buffer_ok b" and "buffer_grow b (length p) = (b', m)"
  shows "buffer_ok (b'\<lparr>buf_data := copy_at (buf_data b') m p\<rparr>) \<and>
    buffer_Bytes (b'\<lparr>buf_data := copy_at (buf_data b') m p\<rparr>) = buffer_Bytes b @ p"
proof -
  note g = buffer_grow_ok [OF assms]
  then have "drop (buf_off b') (take m (buf_data b')) = buffer_Bytes b"
    by (simp add: buffer_Bytes_def [of b'] drop_take)
  then show ?thesis using g
    by (auto simp: buffer_ok_def buffer_Bytes_def [of "b'\<lparr>buf_data := x\<rparr>" for x] copy_at_eq)
qed

lemma buffer_Write_ok:
  "buffer_ok b \<Longrightarrow> buffer_Write b p = (b', n, e) \<Longrightarrow>
   buffer_ok b' \<and> buffer_Bytes b' = buffer_Bytes b @ p \<and> n = length p \<and> e = None"
  using buffer_put_ok [of b p] by (auto simp: buffer_Write_def split: prod.splits)

lemma buffer_WriteString_eq: "buffer_WriteString b s = buffer_Write b s"
  by (simp add: buffer_WriteString_def buffer_Write_def)

lemma buffer_WriteByte_eq: "buffer_WriteByte b c = (fst (buffer_Write b [c]), None)"
  by (simp add: buffer_WriteByte_def buffer_Write_def split: prod.splits)

lemma buffer_Read_ok:
  "buffer_ok b \<Longrightarrow> buffer_Read b k = (b', bs, e) \<Longrightarrow>
   buffer_ok b' \<and> bs = take k (buffer_Bytes b) \<and> buffer_Bytes b' = drop k (buffer_Bytes b) \<and>
   e = (if buffer_Bytes b = [] then Some EOF else None)"
  by (auto simp: buffer_Read_def buffer_ok_def buffer_Bytes_def Let_def min_def add.commute split: if_splits)

lemma buffer_Next_ok:
  "buffer_ok b \<Longrightarrow> buffer_Next b n = (b', bs) \<Longrightarrow>
   buffer_ok b' \<and> bs = take n (buffer_Bytes b) \<and> buffer_Bytes b' = drop n (buffer_Bytes b)"
  by (auto simp: buffer_Next_def buffer_ok_def buffer_Bytes_def buffer_Len_def Let_def add.commute split: if_splits)

lemma buffer_ReadByte_ok:
  "buffer_ok b \<Longrightarrow> buffer_ReadByte b = (b', c, e) \<Longrightarrow>
   buffer_ok b' \<and>
   (case buffer_Bytes b of
      [] \<Rightarrow> c = 0 \<and> e = Some EOF \<and> buffer_Bytes b' = []
    | x # xs \<Rightarrow> c = x \<and> e = None \<and> buffer_Bytes b' = xs)"
proof (cases "buf_off b < length (buf_data b)")
  case True
  assume "buffer_ok b" "buffer_ReadByte b = (b', c, e)"
  then show ?thesis using True Cons_nth_drop_Suc [OF True, symmetric]
    by (auto simp: buffer_ReadByte_def buffer_ok_def buffer_Bytes_def)
qed (auto simp: buffer_ReadByte_def buffer_ok_def buffer_Bytes_def)

lemma buffer_Truncate_ok:
  "buffer_ok b \<Longrightarrow> n \<le> buffer_Len b \<Longrightarrow>
   \<exists>b'. buffer_Truncate b n = Inr b' \<and> buffer_ok b' \<and> buffer_Bytes b' = take n (buffer_Bytes b)"
proof (cases "n = 0")
  case False
  assume "buffer_ok b" "n \<le> buffer_Len b"
  then have "buf_off b + n \<le> length (buf_data b)" by (auto simp: buffer_ok_def buffer_Len_def)
  then show ?thesis using False \<open>buffer_ok b\<close> buf_reslice_ok [of b "buf_off b + n"]
    by (simp add: buffer_Truncate_def buf_cap_def buffer_Bytes_def)
qed (simp add: buffer_Truncate_0 buffer_Reset_ok)

lemma buffer_advance:
  "buffer_ok b \<Longrightarrow> n \<le> length (buffer_Bytes b) \<Longrightarrow>
   buffer_ok (b\<lparr>buf_off := buf_off b + n\<rparr>) \<and> buffer_Bytes (b\<lparr>buf_off := buf_off b + n\<rparr>) = drop n (buffer_Bytes b)"
  by (auto simp: buffer_ok_def buffer_Bytes_def add.commute)

lemma buffer_ReadRune_ok:
  assumes "buffer_ok b" and "buffer_ReadRune b = (b', r, n, e)"
  shows "buffer_ok b' \<and> buffer_Bytes b' = drop n (buffer_Bytes b) \<and>
    (if buffer_Bytes b = [] then e = Some EOF \<and> n = 0 else e = None \<and> (r, n) = DecodeRune (buffer_Bytes b))"
proof (cases "buf_off b < length (buf_data b)")
  case True
  then have ne: "buffer_Bytes b \<noteq> []" and c: "buf_data b ! buf_off b = buffer_Bytes b ! 0"
    by (simp_all add: buffer_Bytes_def)
  have "(b', r, n, e) =
      (let (r, n) = DecodeRune (buffer_Bytes b) in (b\<lparr>buf_off := buf_off b + n\<rparr>, r, n, None))"
    using assms(2) True decode_ascii [OF ne]
    by (auto simp: buffer_ReadRune_def c RuneSelf_def Let_def simp flip: buffer_Bytes_def split: if_splits prod.splits)
  then show ?thesis
    using ne decode_size [OF ne] buffer_advance [OF assms(1), of n] by (auto split: prod.splits)
next
  case False
  with assms show ?thesis by (auto simp: buffer_ReadRune_def buffer_ok_def buffer_Bytes_def)
qed

lemma buffer_WriteRune_ok:
  assumes "buffer_ok b"
  shows "\<exists>b' n. buffer_WriteRune b r = Inr (b', n, None) \<and> buffer_ok b' \<and>
    buffer_Bytes b' = buffer_Bytes b @ (if r < 0 then [word_of_int r] else encodeRune_bytes r) \<and>
    n = (if r < 0 then 1 else length (encodeRune_bytes r))"
proof (cases "r < uint RuneSelf")
  case True
  have "encodeRune_bytes r = [word_of_int r]" if "0 \<le> r"
  proof -
    have "r < 128" using True by (simp add: RuneSelf_def)
    moreover from this that have "(word_of_int r :: uint32) \<le> word_of_int Rune1Max"
      by (simp add: word_le_def uint_word_of_int Rune1Max_def)
    ultimately show ?thesis using that
      by (simp add: encodeRune_bytes_def Let_def word_uint_eq_iff uint_word_of_int unsigned_ucast_eq
          take_bit_eq_mod)
  qed
  then show ?thesis using True buffer_Write_ok [OF assms, of "[word_of_int r]"]
    by (cases "buffer_Write b [word_of_int r]") (auto simp: buffer_WriteRune_def buffer_WriteByte_eq)
next
  case False
  let ?rb = "copy_at (buf_runeBytes b) 0 (encodeRune_bytes r)"
  have len: "length (encodeRune_bytes r) \<le> length (buf_runeBytes b)"
    using assms by (simp add: buffer_ok_def encodeRune_bytes_def Let_def UTFMax_def)
  then have "buffer_ok (b\<lparr>buf_runeBytes := ?rb\<rparr>)" "take (length (encodeRune_bytes r)) ?rb = encodeRune_bytes r"
    using assms take_copy_at [of 0 "encodeRune_bytes r" "buf_runeBytes b"] by (simp_all add: buffer_ok_def)
  moreover obtain b' n e where "buffer_Write (b\<lparr>buf_runeBytes := ?rb\<rparr>) (encodeRune_bytes r) = (b', n, e)"
    by (metis prod_cases3)
  ultimately show ?thesis
    using False len buffer_Write_ok [of "b\<lparr>buf_runeBytes := ?rb\<rparr>" "encodeRune_bytes r" b' n e]
    by (auto simp: buffer_WriteRune_def EncodeRune_def Let_def RuneSelf_def buffer_Bytes_def [of "b\<lparr>buf_runeBytes := x\<rparr>" for x] buffer_Bytes_def [of b])
qed

subsection \<open>The buffer as a reader and a writer\<close>

lemma buffer_reader_ok:
  "buffer_ok b \<Longrightarrow> r_Read buffer_reader b k = (b', bs, e) \<Longrightarrow>
   buffer_ok b' \<and> bs = take k (buffer_Bytes b) \<and> buffer_Bytes b' = drop k (buffer_Bytes b) \<and>
   e = (if buffer_Bytes b = [] then Some EOF else None)"
  using buffer_Read_ok by (simp add: buffer_reader_def)

lemma buffer_writer_ok:
  "buffer_ok b \<Longrightarrow> w_Write buffer_writer b p = (b', n, e) \<Longrightarrow>
   buffer_ok b' \<and> buffer_Bytes b' = buffer_Bytes b @ p \<and> n = length p \<and> e = None"
  using buffer_Write_ok by (simp add: buffer_writer_def)

interpretation buf_source: io_source buffer_reader buffer_ok buffer_Bytes
  by (unfold_locales; drule (1) buffer_reader_ok; auto split: if_splits)

interpretation buf_sink: io_sink buffer_writer buffer_ok buffer_Bytes
  by (unfold_locales; drule (1) buffer_writer_ok; simp)

interpretation buf_copy: io_copy buffer_reader buffer_ok buffer_Bytes buffer_writer buffer_ok buffer_Bytes ..

interpretation buf_copy_sink: io_copy_sink buffer_reader buffer_ok buffer_Bytes buffer_writer buffer_ok buffer_Bytes ..

interpretation buf_limited: io_source "limitedReader_ops buffer_reader" "\<lambda>l. buffer_ok (lr_r l)"
    "\<lambda>l. take (nat (lr_n l)) (buffer_Bytes (lr_r l))"
  by (rule buf_source.limited_source)

lemma buffer_room_ok:
  assumes "buffer_ok b"
  shows "buffer_ok (buffer_room b) \<and> buffer_Bytes (buffer_room b) = buffer_Bytes b \<and>
    buffer_MinRead \<le> length (buf_spare (buffer_room b))"
proof (cases "buf_cap b - length (buf_data b) < buffer_MinRead")
  case False
  then show ?thesis using assms by (simp add: buffer_room_def buf_cap_def)
next
  case small: True
  show ?thesis
  proof (cases "buf_off b + buf_cap b - length (buf_data b) \<ge> buffer_MinRead")
    case True
    with small assms show ?thesis
      by (simp add: buffer_room_def Let_def buffer_ok_def buffer_Bytes_def buf_reslice_def buf_cap_def copy_at_all)
  next
    case False
    with small assms show ?thesis
      by (simp add: buffer_room_def Let_def buffer_ok_def buffer_Bytes_def buf_cap_def copy_at_all)
  qed
qed

context io_source
begin

lemma buffer_ReadFrom_loop_source:
  "rok r \<Longrightarrow> buffer_ok b \<Longrightarrow>
   \<exists>b' r'. buffer_ReadFrom_loop rops b r n = Some (b', r', n + length (src r), None) \<and> buffer_ok b' \<and> rok r' \<and>
     src r' = [] \<and> buffer_Bytes b' = buffer_Bytes b @ src r"
proof (induction "length (src r)" arbitrary: r b n rule: less_induct)
  case less
  define b1 where "b1 = buffer_room b"
  have b1: "buffer_ok b1" "buffer_Bytes b1 = buffer_Bytes b" "0 < length (buf_spare b1)"
    using buffer_room_ok [OF less.prems(2)] by (auto simp: b1_def buffer_MinRead_def)
  obtain r1 bs e where rd: "r_Read rops r (length (buf_spare b1)) = (r1, bs, e)" by (metis prod_cases3)
  define b2 where "b2 = b1\<lparr>buf_data := buf_data b1 @ bs, buf_spare := drop (length bs) (buf_spare b1)\<rparr>"
  note laws = Read_ok [OF less.prems(1) rd] Read_src [OF less.prems(1) rd]
  have b2: "buffer_ok b2" "buffer_Bytes b2 = buffer_Bytes b @ bs"
    using b1 by (auto simp: b2_def buffer_ok_def buffer_Bytes_def)
  have step: "buffer_ReadFrom_loop rops b r n =
      (if e = Some EOF then Some (b2, r1, n + length bs, None)
       else if e \<noteq> None then Some (b2, r1, n + length bs, e)
       else buffer_ReadFrom_loop rops b2 r1 (n + length bs))"
    using rd by (subst buffer_ReadFrom_loop.simps) (simp add: buf_cap_def b2_def Let_def flip: b1_def)
  show ?case
  proof (cases e)
    case None
    then have "length (src r1) < length (src r)" using Read_shorter [OF less.prems(1)] rd b1 by simp
    then show ?thesis using less.hyps [of r1 b2 "n + length bs"] laws b2 step None by (simp add: add.assoc)
  next
    case (Some x)
    then have "x = EOF \<and> src r1 = []" using Read_EOF [OF less.prems(1)] rd by simp
    then show ?thesis using laws b2 step Some by simp
  qed
qed

lemma buffer_ReadFrom_source:
  assumes "rok r" and "buffer_ok b"
  shows "\<exists>b' r'. buffer_ReadFrom rops b r = Some (b', r', length (src r), None) \<and> buffer_ok b' \<and> rok r' \<and>
     src r' = [] \<and> buffer_Bytes b' = buffer_Bytes b @ src r"
proof -
  define b1 where "b1 = (if buf_off b \<ge> length (buf_data b) then buffer_Reset b else b)"
  have "buffer_ok b1" "buffer_Bytes b1 = buffer_Bytes b"
    using assms(2) by (auto simp: b1_def buffer_ok_def buffer_Bytes_def)
  then show ?thesis using buffer_ReadFrom_loop_source [of r b1 0] assms(1)
    by (simp add: buffer_ReadFrom_def flip: b1_def)
qed

end

context io_writer
begin

lemma buffer_WriteTo_writer:
  assumes "wok w" and "buffer_ok b"
  shows "\<exists>w' b' n e. buffer_WriteTo wops w b = Some (w', b', n, e) \<and> wok w' \<and> buffer_ok b' \<and>
    out w' = out w @ take n (buffer_Bytes b) \<and> buffer_Bytes b' = drop n (buffer_Bytes b) \<and>
    n \<le> buffer_Len b \<and> (e = None \<longrightarrow> n = buffer_Len b) \<and>
    (e \<noteq> None \<longrightarrow> snd (snd (w_Write wops w (buffer_Bytes b))) = e)"
proof (cases "buf_off b < length (buf_data b)")
  case False
  then show ?thesis using assms buffer_Reset_ok [OF assms(2)]
    by (auto simp: buffer_WriteTo_def buffer_WriteTo_loop.simps buffer_Bytes_def buffer_Len_def)
next
  case True
  obtain w1 m e where wr: "w_Write wops w (drop (buf_off b) (buf_data b)) = (w1, m, e)" by (metis prod_cases3)
  note laws = Write_ok [OF assms(1) wr] Write_out [OF assms(1) wr] Write_count [OF assms(1) wr]
  define b1 where "b1 = b\<lparr>buf_off := buf_off b + m\<rparr>"
  have b1: "buffer_ok b1" "buffer_Bytes b1 = drop m (buffer_Bytes b)"
    using laws True assms(2) by (auto simp: b1_def buffer_ok_def buffer_Bytes_def add.commute)
  show ?thesis
  proof (cases e)
    case None
    then have m: "m = length (buf_data b) - buf_off b" using Write_short [OF assms(1)] wr by fastforce
    have "buffer_WriteTo wops w b = Some (w1, buffer_Reset b1, m, None)"
      using True wr None m
      by (simp add: buffer_WriteTo_def buffer_WriteTo_loop.simps [of wops w b 0] b1_def
          buffer_WriteTo_loop.simps [of wops w1 "b\<lparr>buf_off := length (buf_data b)\<rparr>"] Let_def)
    then show ?thesis using laws b1 m buffer_Reset_ok [OF b1(1)]
      by (auto simp: buffer_Bytes_def [of b] buffer_Len_def)
  next
    case (Some x)
    then have "buffer_WriteTo wops w b = Some (w1, b1, m, e)"
      using True wr by (simp add: buffer_WriteTo_def buffer_WriteTo_loop.simps [of wops w b 0] b1_def Let_def)
    then show ?thesis using laws b1 Some wr by (auto simp: buffer_Bytes_def [of b] buffer_Len_def)
  qed
qed

end

context io_sink
begin

lemma buffer_WriteTo_sink:
  assumes "wok w" and "buffer_ok b"
  shows "\<exists>w' b'. buffer_WriteTo wops w b = Some (w', b', buffer_Len b, None) \<and> wok w' \<and> buffer_ok b' \<and>
    out w' = out w @ buffer_Bytes b \<and> buffer_Bytes b' = []"
proof -
  obtain w' b' n e where wt: "buffer_WriteTo wops w b = Some (w', b', n, e)" "wok w'" "buffer_ok b'"
      "out w' = out w @ take n (buffer_Bytes b)" "buffer_Bytes b' = drop n (buffer_Bytes b)"
      "e = None \<longrightarrow> n = buffer_Len b" "e \<noteq> None \<longrightarrow> snd (snd (w_Write wops w (buffer_Bytes b))) = e"
    using buffer_WriteTo_writer [OF assms] by blast
  have "e = None"
    using wt(7) Write_no_error [OF assms(1), of "buffer_Bytes b"] by (metis prod.collapse)
  with wt show ?thesis by (simp add: buffer_Len_Bytes)
qed

end

subsection \<open>Properties\<close>

text \<open>
  C25: a \<^verbatim>\<open>Buffer\<close> is a queue of bytes. From any state that the operations can reach, whatever has
  been read, truncated or reallocated before, no operation panics, each keeps the invariant, the
  writing operations append to \<^verbatim>\<open>Bytes\<close>, the reading ones take the same bytes from its front, and
  the errors are \<^verbatim>\<open>os.EOF\<close> exactly on the empty buffer. \<^verbatim>\<open>WriteRune\<close> appends the encoding, except
  that for a negative rune it appends the low byte of the integer.
\<close>

theorem buffer_queue:
  assumes "buffer_ok b"
  shows "(case buffer_Write b p of (b', n, e) \<Rightarrow>
            buffer_ok b' \<and> buffer_Bytes b' = buffer_Bytes b @ p \<and> n = length p \<and> e = None) \<and>
         buffer_WriteString b p = buffer_Write b p \<and>
         (case buffer_WriteByte b c of (b', e) \<Rightarrow>
            buffer_ok b' \<and> buffer_Bytes b' = buffer_Bytes b @ [c] \<and> e = None) \<and>
         (\<exists>b' n. buffer_WriteRune b r = Inr (b', n, None) \<and> buffer_ok b' \<and>
            buffer_Bytes b' = buffer_Bytes b @ (if r < 0 then [word_of_int r] else encodeRune_bytes r)) \<and>
         (case buffer_Read b k of (b', bs, e) \<Rightarrow>
            buffer_ok b' \<and> bs = take k (buffer_Bytes b) \<and> buffer_Bytes b' = drop k (buffer_Bytes b) \<and>
            e = (if buffer_Bytes b = [] then Some EOF else None)) \<and>
         (case buffer_Next b k of (b', bs) \<Rightarrow>
            buffer_ok b' \<and> bs = take k (buffer_Bytes b) \<and> buffer_Bytes b' = drop k (buffer_Bytes b)) \<and>
         (case buffer_ReadByte b of (b', x, e) \<Rightarrow>
            buffer_ok b' \<and> buffer_Bytes b' = drop 1 (buffer_Bytes b) \<and>
            (if buffer_Bytes b = [] then e = Some EOF else e = None \<and> x = hd (buffer_Bytes b))) \<and>
         (case buffer_ReadRune b of (b', x, n, e) \<Rightarrow>
            buffer_ok b' \<and> buffer_Bytes b' = drop n (buffer_Bytes b) \<and>
            (if buffer_Bytes b = [] then e = Some EOF else e = None \<and> (x, n) = DecodeRune (buffer_Bytes b))) \<and>
         (\<exists>b'. buffer_Truncate b (min k (buffer_Len b)) = Inr b' \<and> buffer_ok b' \<and>
            buffer_Bytes b' = take k (buffer_Bytes b))"
proof (intro conjI, goal_cases)
  case 1
  show ?case using buffer_Write_ok [OF assms, of p] by (auto split: prod.splits)
next
  case 2
  show ?case by (rule buffer_WriteString_eq)
next
  case 3
  show ?case using buffer_Write_ok [OF assms, of "[c]"]
    by (cases "buffer_Write b [c]") (simp add: buffer_WriteByte_eq)
next
  case 4
  show ?case using buffer_WriteRune_ok [OF assms, of r] by blast
next
  case 5
  show ?case using buffer_Read_ok [OF assms, of k] by (cases "buffer_Read b k") simp
next
  case 6
  show ?case using buffer_Next_ok [OF assms, of k] by (cases "buffer_Next b k") simp
next
  case 7
  show ?case using buffer_ReadByte_ok [OF assms] by (cases "buffer_ReadByte b") (auto split: list.splits)
next
  case 8
  show ?case using buffer_ReadRune_ok [OF assms] by (cases "buffer_ReadRune b") (simp split: if_splits)
next
  case 9
  have "take (min k (buffer_Len b)) (buffer_Bytes b) = take k (buffer_Bytes b)"
    by (simp add: buffer_Len_Bytes min_def)
  then show ?case using buffer_Truncate_ok [OF assms, of "min k (buffer_Len b)"] by simp
qed

theorem buffer_queue_witness:
  "buffer_ok buffer_zero \<and>
   (case buffer_Write buffer_zero [1, 2] of (b', n, e) \<Rightarrow> buffer_Bytes b' = [1, 2] \<and> n = 2 \<and> e = None)"
  using buffer_queue [of buffer_zero "[1, 2]" 0 0 0]
  by (simp add: buffer_zero_ok split: prod.splits)

text \<open>
  C26: \<^verbatim>\<open>io.Copy\<close> from one \<^verbatim>\<open>Buffer\<close> to another returns, without an error, with the number of unread
  bytes of the source, which it has moved to the end of the destination. It does so on each of
  its three paths: through \<^verbatim>\<open>ReadFrom\<close> of the destination, through \<^verbatim>\<open>WriteTo\<close> of the source, and
  through the copying loop.
\<close>

theorem buffer_Copy:
  assumes "buffer_ok dst" and "buffer_ok src"
    and "ReadFrom \<in> {None, Some (buffer_ReadFrom buffer_reader)}"
    and "WriteTo \<in> {None, Some (buffer_WriteTo buffer_writer)}"
  shows "\<exists>dst' src'. io_Copy ReadFrom WriteTo buffer_writer buffer_reader dst src =
           Some (dst', src', buffer_Len src, None) \<and> buffer_ok dst' \<and> buffer_ok src' \<and>
           buffer_Bytes dst' = buffer_Bytes dst @ buffer_Bytes src \<and> buffer_Bytes src' = []"
proof -
  consider "ReadFrom = Some (buffer_ReadFrom buffer_reader)"
    | "ReadFrom = None" "WriteTo = Some (buffer_WriteTo buffer_writer)" | "ReadFrom = None" "WriteTo = None"
    using assms(3,4) by auto
  then show ?thesis
  proof cases
    case 1
    then show ?thesis using buf_source.buffer_ReadFrom_source [OF assms(2,1)]
      by (auto simp: io_Copy_def buffer_Len_Bytes)
  next
    case 2
    then show ?thesis using buf_sink.buffer_WriteTo_sink [OF assms(1,2)]
      by (auto simp: io_Copy_def buffer_Len_Bytes)
  next
    case 3
    then show ?thesis using buf_copy.Copy_loop_copies [OF assms(2,1), of 0] buf_copy_sink.Copy_loop_no_error [OF assms(2,1), of 0]
      by (auto simp: io_Copy_def buffer_Len_Bytes)
  qed
qed

theorem buffer_Copy_witness:
  "\<exists>dst' src'. io_Copy None None buffer_writer buffer_reader buffer_zero (buffer_NewBufferString [7, 8]) =
     Some (dst', src', 2, None) \<and> buffer_Bytes dst' = [7, 8]"
  using buffer_Copy [of buffer_zero "buffer_NewBufferString [7, 8]" None None] buffer_NewBufferString_ok [of "[7, 8]"]
  by (auto simp: buffer_Len_Bytes buffer_zero_ok)

end
