(* ===== verification/Base64.thy ===== *)
theory Base64
  imports Bytes_Buffer
begin

text \<open>
  Package \<^verbatim>\<open>encoding/base64\<close>: the one-shot \<^verbatim>\<open>Encode\<close> and \<^verbatim>\<open>Decode\<close>, which store into a slice the
  caller provides, and the stream encoder and decoder over a writer or a reader of package \<^verbatim>\<open>io\<close>.
  The reference is \<open>base64_text\<close>, the text of RFC 4648 for an alphabet. \<^verbatim>\<open>Encode\<close> stores it, \<^verbatim>\<open>Decode\<close>
  inverts it, and the stream encoder writes it however the data is cut into calls of \<^verbatim>\<open>Write\<close>.
\<close>

subsection \<open>The code\<close>

record base64_Encoding =
  be_encode :: "byte list"
  be_decodeMap :: "byte list"

definition encodeStd :: "byte list" where
  "encodeStd = bytes_of ''ABCDEFGHIJKLMNOPQRSTUVWXYZabcdefghijklmnopqrstuvwxyz0123456789+/''"

definition encodeURL :: "byte list" where
  "encodeURL = bytes_of ''ABCDEFGHIJKLMNOPQRSTUVWXYZabcdefghijklmnopqrstuvwxyz0123456789-_''"

definition base64_NewEncoding :: "byte list \<Rightarrow> base64_Encoding" where
  "base64_NewEncoding encoder =
     \<lparr>be_encode = encoder,
      be_decodeMap = foldl (\<lambda>m (i, c). m[unat c := of_nat i]) (replicate 256 0xFF) (enumerate 0 encoder)\<rparr>"

definition base64_StdEncoding :: base64_Encoding where
  "base64_StdEncoding = base64_NewEncoding encodeStd"

definition base64_URLEncoding :: base64_Encoding where
  "base64_URLEncoding = base64_NewEncoding encodeURL"

text \<open>The character \<^verbatim>\<open>=\<close>.\<close>

definition base64_pad :: byte where "base64_pad = 0x3D"

text \<open>
  The switch of \<^verbatim>\<open>Encode\<close>, with its cases that fall through: the four 6-bit blocks of the first
  three bytes of \<open>src\<close>, or of what there is of them.
\<close>

definition base64_sextets :: "byte list \<Rightarrow> byte list" where
  "base64_sextets src =
     (let (d3, d2) = (if length src \<ge> 3 then (src ! 2 AND 0x3F, drop_bit 6 (src ! 2)) else (0, 0));
          (d2, d1) = (if length src \<ge> 2 then (d2 OR (push_bit 2 (src ! 1) AND 0x3F), drop_bit 4 (src ! 1))
                      else (d2, 0));
          (d1, d0) = (d1 OR (push_bit 4 (src ! 0) AND 0x3F), drop_bit 2 (src ! 0))
      in [d0, d1, d2, d3])"

text \<open>The loop of \<^verbatim>\<open>Encode\<close>: \<open>k\<close> is where the slice \<^verbatim>\<open>dst\<close> starts by now in the caller's slice.\<close>

function base64_Encode_loop :: "base64_Encoding \<Rightarrow> byte list \<Rightarrow> nat \<Rightarrow> byte list \<Rightarrow> byte list go" where
  "base64_Encode_loop enc dst k src =
     (if src = [] then Inr dst
      else if length dst < k + 4 \<or> (\<exists>d \<in> set (base64_sextets src). length (be_encode enc) \<le> unat d)
      then Inl (Panic ''index out of range'')
      else let q = map (\<lambda>d. be_encode enc ! unat d) (base64_sextets src);
               q = (if length src < 3 then q[3 := base64_pad] else q);
               q = (if length src < 2 then q[2 := base64_pad] else q);
               dst = copy_at dst k q
           in if length src < 3 then Inr dst else base64_Encode_loop enc dst (k + 4) (drop 3 src))"
  by pat_completeness auto
termination
  by (relation "measure (\<lambda>(enc, dst, k, src). length src)") auto

declare base64_Encode_loop.simps [simp del]

definition base64_Encode :: "base64_Encoding \<Rightarrow> byte list \<Rightarrow> byte list \<Rightarrow> byte list go" where
  "base64_Encode enc dst src = (if length src = 0 then Inr dst else base64_Encode_loop enc dst 0 src)"

definition base64_EncodedLen :: "nat \<Rightarrow> nat" where
  "base64_EncodedLen n = (n + 2) div 3 * 4"

text \<open>The stream encoder.\<close>

record 'w base64_encoder =
  b64e_err :: "os_error option"
  b64e_enc :: base64_Encoding
  b64e_w :: 'w
  b64e_buf :: "byte list"
  b64e_nbuf :: nat
  b64e_out :: "byte list"

text \<open>Encode \<open>src\<close> into \<^verbatim>\<open>e.out\<close> and write the first \<open>n\<close> bytes of it.\<close>

definition base64_flush ::
    "'w writer_ops \<Rightarrow> 'w base64_encoder \<Rightarrow> byte list \<Rightarrow> nat \<Rightarrow> 'w base64_encoder go" where
  "base64_flush ops e src n =
     go_bind (base64_Encode (b64e_enc e) (b64e_out e) src) (\<lambda>out.
       case w_Write ops (b64e_w e) (take n out) of (w, _, err) \<Rightarrow>
         Inr (e\<lparr>b64e_out := out, b64e_w := w, b64e_err := err\<rparr>))"

text \<open>The loop \<^verbatim>\<open>Large interior chunks\<close>: returns the encoder, the count and what is left of \<^verbatim>\<open>p\<close>.\<close>

function base64_interior ::
    "'w writer_ops \<Rightarrow> 'w base64_encoder \<Rightarrow> nat \<Rightarrow> byte list \<Rightarrow> ('w base64_encoder \<times> nat \<times> byte list) go" where
  "base64_interior ops e n p =
     (if length p < 3 then Inr (e, n, p)
      else let nn = 1024 div 4 * 3;
               nn = (if nn > length p then length p else nn);
               nn = nn - nn mod 3
           in go_bind (if nn > 0 then base64_flush ops e (take nn p) (nn div 3 * 4) else Inr e) (\<lambda>e.
                if b64e_err e \<noteq> None then Inr (e, n, p)
                else base64_interior ops e (n + nn) (drop nn p)))"
  by pat_completeness auto
termination
  by (relation "measure (\<lambda>(ops, e, n, p). length p)") (auto simp: Let_def split: if_splits)

declare base64_interior.simps [simp del]

definition base64_Write ::
    "'w writer_ops \<Rightarrow> 'w base64_encoder \<Rightarrow> byte list \<Rightarrow> ('w base64_encoder \<times> nat \<times> os_error option) go" where
  "base64_Write ops e p =
     (if b64e_err e \<noteq> None then Inr (e, 0, b64e_err e)
      else
        let i = (if b64e_nbuf e > 0 then min (length p) (3 - b64e_nbuf e) else 0);
            e = (if b64e_nbuf e > 0
                 then e\<lparr>b64e_buf := copy_at (b64e_buf e) (b64e_nbuf e) (take i p), b64e_nbuf := b64e_nbuf e + i\<rparr>
                 else e);
            p = drop i p
        in if b64e_nbuf e > 0 \<and> b64e_nbuf e < 3 then Inr (e, i, None)
           else go_bind (if b64e_nbuf e > 0 then base64_flush ops e (b64e_buf e) 4 else Inr e) (\<lambda>e.
             if b64e_err e \<noteq> None then Inr (e, i, b64e_err e)
             else go_bind (base64_interior ops (e\<lparr>b64e_nbuf := 0\<rparr>) i p) (\<lambda>(e, n, p).
               if b64e_err e \<noteq> None then Inr (e, n, b64e_err e)
               else Inr (e\<lparr>b64e_buf := copy_at (b64e_buf e) 0 p, b64e_nbuf := length p\<rparr>,
                         n + length p, None))))"

definition base64_Close ::
    "'w writer_ops \<Rightarrow> 'w base64_encoder \<Rightarrow> ('w base64_encoder \<times> os_error option) go" where
  "base64_Close ops e =
     go_bind (if b64e_err e = None \<and> b64e_nbuf e > 0
              then base64_flush ops (e\<lparr>b64e_nbuf := 0\<rparr>) (take (b64e_nbuf e) (b64e_buf e)) 4
              else Inr e)
       (\<lambda>e. Inr (e, b64e_err e))"

definition base64_NewEncoder :: "base64_Encoding \<Rightarrow> 'w \<Rightarrow> 'w base64_encoder" where
  "base64_NewEncoder enc w =
     \<lparr>b64e_err = None, b64e_enc = enc, b64e_w = w, b64e_buf = replicate 3 0, b64e_nbuf = 0,
      b64e_out = replicate 1024 0\<rparr>"

text \<open>The loop \<^verbatim>\<open>dbufloop\<close> of \<^verbatim>\<open>decode\<close>: the offset of an error, or \<^verbatim>\<open>dbuf[0:dlen]\<close> and \<^verbatim>\<open>end\<close>.\<close>

function base64_dbuf ::
    "base64_Encoding \<Rightarrow> byte list \<Rightarrow> nat \<Rightarrow> nat \<Rightarrow> byte list \<Rightarrow> nat + byte list \<times> bool" where
  "base64_dbuf enc src i j dbuf =
     (if j \<ge> 4 then Inr (dbuf, False)
      else let c = src ! (i * 4 + j)
           in if c = base64_pad \<and> j \<ge> 2 \<and> i + 1 = length src div 4 then
                (if src ! (i * 4 + 3) \<noteq> base64_pad then Inl (i * 4 + 2) else Inr (dbuf, True))
              else let d = be_decodeMap enc ! unat c
                   in if d = 0xFF then Inl (i * 4 + j) else base64_dbuf enc src i (j + 1) (dbuf @ [d]))"
  by pat_completeness auto
termination
  by (relation "measure (\<lambda>(enc, src, i, j, dbuf). 4 - j)") auto

declare base64_dbuf.simps [simp del]

text \<open>The bytes that the second switch of \<^verbatim>\<open>decode\<close> packs from \<^verbatim>\<open>dbuf[0:dlen]\<close>.\<close>

definition base64_pack :: "byte list \<Rightarrow> byte list" where
  "base64_pack dbuf =
     (if length dbuf \<ge> 2 then [push_bit 2 (dbuf ! 0) OR drop_bit 4 (dbuf ! 1)] else []) @
     (if length dbuf \<ge> 3 then [push_bit 4 (dbuf ! 1) OR drop_bit 2 (dbuf ! 2)] else []) @
     (if length dbuf \<ge> 4 then [push_bit 6 (dbuf ! 2) OR dbuf ! 3] else [])"

text \<open>The loop of \<^verbatim>\<open>decode\<close> from the quantum \<open>i\<close> on.\<close>

function base64_decode_loop ::
    "base64_Encoding \<Rightarrow> byte list \<Rightarrow> byte list \<Rightarrow> nat \<Rightarrow> nat \<Rightarrow> bool \<Rightarrow>
     (byte list \<times> nat \<times> bool \<times> os_error option) go" where
  "base64_decode_loop enc dst src i n fin =
     (if i < length src div 4 \<and> \<not> fin then
        (case base64_dbuf enc src i 0 [] of
           Inl off \<Rightarrow> Inr (dst, n, False, Some (CorruptInputError off))
         | Inr (dbuf, fin) \<Rightarrow>
             if length dst < i * 3 + (length dbuf - 1) then Inl (Panic ''index out of range'')
             else base64_decode_loop enc (copy_at dst (i * 3) (base64_pack dbuf)) src (i + 1)
                    (n + (length dbuf - 1)) fin)
      else Inr (dst, n, fin, None))"
  by pat_completeness auto
termination
  by (relation "measure (\<lambda>(enc, dst, src, i, n, fin). length src div 4 - i)") auto

declare base64_decode_loop.simps [simp del]

definition base64_decode ::
    "base64_Encoding \<Rightarrow> byte list \<Rightarrow> byte list \<Rightarrow> (byte list \<times> nat \<times> bool \<times> os_error option) go" where
  "base64_decode enc dst src = base64_decode_loop enc dst src 0 0 False"

definition base64_Decode ::
    "base64_Encoding \<Rightarrow> byte list \<Rightarrow> byte list \<Rightarrow> (byte list \<times> nat \<times> os_error option) go" where
  "base64_Decode enc dst src =
     (if length src mod 4 \<noteq> 0 then Inr (dst, 0, Some (CorruptInputError (length src div 4 * 4)))
      else go_bind (base64_decode enc dst src) (\<lambda>(dst, n, fin, err). Inr (dst, n, err)))"

definition base64_DecodedLen :: "nat \<Rightarrow> nat" where
  "base64_DecodedLen n = n div 4 * 3"

subsection \<open>The reference\<close>

text \<open>
  The text of RFC 4648: each group of 24 bits as four digits of base 64, the last group filled
  with zero bits and its missing digits replaced by the padding.
\<close>

fun base64_text :: "byte list \<Rightarrow> byte list \<Rightarrow> byte list" where
  "base64_text a [] = []"
| "base64_text a [x] = [a ! (unat x div 4), a ! (unat x mod 4 * 16), base64_pad, base64_pad]"
| "base64_text a [x, y] =
     [a ! (unat x div 4), a ! (unat x mod 4 * 16 + unat y div 16), a ! (unat y mod 16 * 4), base64_pad]"
| "base64_text a (x # y # z # s) =
     [a ! (unat x div 4), a ! (unat x mod 4 * 16 + unat y div 16), a ! (unat y mod 16 * 4 + unat z div 64),
      a ! (unat z mod 64)] @ base64_text a s"

lemma length_base64_text: "length (base64_text a s) = base64_EncodedLen (length s)"
proof (induction a s rule: base64_text.induct)
  case (4 a x y z s)
  have "(5 + length s) div 3 = Suc ((2 + length s) div 3)" by presburger
  with 4 show ?case by (simp add: base64_EncodedLen_def add.commute)
qed (simp_all add: base64_EncodedLen_def)

text \<open>A text is cut at a multiple of four characters where the data is at one of three bytes.\<close>

lemma four_times: "4 * Suc q = Suc (Suc (Suc (Suc (4 * q))))" and three_times: "3 * Suc q = Suc (Suc (Suc (3 * q)))"
  by simp_all

lemma base64_text_take: "take (4 * q) (base64_text a s) = base64_text a (take (3 * q) s)"
proof (induction q arbitrary: s)
  case (Suc q)
  consider "s = []" | x where "s = [x]" | x y where "s = [x, y]" | x y z s' where "s = x # y # z # s'"
    by (metis list.exhaust)
  then show ?case using Suc.IH by cases (simp_all add: four_times three_times del: mult_Suc_right)
qed simp

lemma base64_text_drop: "drop (4 * q) (base64_text a s) = base64_text a (drop (3 * q) s)"
proof (induction q arbitrary: s)
  case (Suc q)
  consider "s = []" | x where "s = [x]" | x y where "s = [x, y]" | x y z s' where "s = x # y # z # s'"
    by (metis list.exhaust)
  then show ?case using Suc.IH by cases (simp_all add: four_times three_times del: mult_Suc_right)
qed simp

subsection \<open>Blocks of six bits\<close>

lemma unat_drop_byte: "unat (drop_bit k (x :: byte)) = unat x div 2 ^ k"
  by (subst unsigned_drop_bit_eq) (simp add: drop_bit_eq_div take_bit_nat_eq_self unat_byte_less)

lemma unat_take_byte: "unat (take_bit k (x :: byte)) = unat x mod 2 ^ k"
  by (subst unsigned_take_bit_eq) (simp add: take_bit_eq_mod)

lemma and_3F: "x AND 0x3F = take_bit 6 (x :: byte)"
  by (simp add: take_bit_eq_mask mask_eq_exp_minus_1)

lemma unat_pack_byte:
  assumes "k \<le> 8" and "unat lo < 2 ^ k"
  shows "unat (push_bit k hi OR lo :: byte) = unat hi mod 2 ^ (8 - k) * 2 ^ k + unat lo"
proof -
  have "push_bit k hi = push_bit k (take_bit (8 - k) hi)"
    by (rule bit_eqI) (auto simp: bit_simps)
  moreover have "unat (take_bit (8 - k) hi) * 2 ^ k < 2 ^ LENGTH(8)"
  proof -
    have "unat (take_bit (8 - k) hi) < 2 ^ (8 - k)" by (simp add: unat_take_byte)
    then have "unat (take_bit (8 - k) hi) * 2 ^ k < 2 ^ (8 - k) * 2 ^ k" by simp
    also have "\<dots> = (2 :: nat) ^ 8" using assms(1) by (simp flip: power_add)
    finally show ?thesis by simp
  qed
  ultimately show ?thesis using unat_pack [OF assms(2)] by (simp add: unat_take_byte)
qed

lemma unat_pack_sextet:
  assumes "k \<le> 6" and "unat lo < 2 ^ k"
  shows "unat (lo OR (push_bit k hi AND 0x3F) :: byte) = unat hi mod 2 ^ (6 - k) * 2 ^ k + unat lo"
proof -
  have "push_bit k hi AND 0x3F = push_bit k (take_bit (6 - k) hi)"
    by (rule bit_eqI) (use assms(1) in \<open>auto simp: and_3F bit_simps\<close>)
  moreover have "unat hi mod 2 ^ (6 - k) mod 2 ^ (8 - k) = unat hi mod 2 ^ (6 - k)"
  proof (rule mod_less)
    have "unat hi mod 2 ^ (6 - k) < 2 ^ (6 - k)" by simp
    also have "\<dots> \<le> (2 :: nat) ^ (8 - k)" by (intro power_increasing) simp_all
    finally show "unat hi mod 2 ^ (6 - k) < 2 ^ (8 - k)" .
  qed
  ultimately show ?thesis using unat_pack_byte [of k lo "take_bit (6 - k) hi"] assms
    by (simp add: unat_take_byte or.commute)
qed

lemma base64_sextets_eq:
  "map unat (base64_sextets (x # y # z # s)) =
     [unat x div 4, unat x mod 4 * 16 + unat y div 16, unat y mod 16 * 4 + unat z div 64, unat z mod 64]"
  "map unat (base64_sextets [x, y]) =
     [unat x div 4, unat x mod 4 * 16 + unat y div 16, unat y mod 16 * 4, 0]"
  "map unat (base64_sextets [x]) = [unat x div 4, unat x mod 4 * 16, 0, 0]"
  using unat_pack_sextet [of 4 "drop_bit 4 y" x] unat_pack_sextet [of 2 "drop_bit 6 z" y]
    unat_pack_sextet [of 2 0 y] unat_pack_sextet [of 4 0 x] unat_byte_less [of y] unat_byte_less [of z]
  by (simp_all add: base64_sextets_def unat_drop_byte and_3F unat_take_byte)

subsection \<open>Encode\<close>

lemma base64_sextets_less: "src \<noteq> [] \<Longrightarrow> d \<in> set (base64_sextets src) \<Longrightarrow> unat d < 64"
proof -
  assume "src \<noteq> []" "d \<in> set (base64_sextets src)"
  then have "unat d \<in> set (map unat (base64_sextets src))" by auto
  moreover obtain x y z s where "src = [x] \<or> src = [x, y] \<or> src = x # y # z # s"
    using \<open>src \<noteq> []\<close> by (metis list.exhaust)
  ultimately show ?thesis
    using unat_byte_less [of x] unat_byte_less [of y] unat_byte_less [of z]
    by (auto simp: base64_sextets_eq simp del: set_map list.set_map)
qed

text \<open>What one round of the loop of \<^verbatim>\<open>Encode\<close> stores.\<close>

lemma base64_round:
  fixes a :: "byte list"
  assumes "src \<noteq> []"
  defines "q \<equiv> map (\<lambda>d. a ! unat d) (base64_sextets src)"
  shows "base64_text a src =
    (let q = (if length src < 3 then q[3 := base64_pad] else q);
         q = (if length src < 2 then q[2 := base64_pad] else q) in q) @ base64_text a (drop 3 src)"
proof -
  have q: "q = map ((!) a) (map unat (base64_sextets src))" by (simp add: q_def)
  consider x where "src = [x]" | x y where "src = [x, y]" | x y z s where "src = x # y # z # s"
    using assms(1) by (metis list.exhaust)
  then show ?thesis
    by cases (simp_all add: q base64_sextets_eq numeral_3_eq_3 numeral_2_eq_2 del: list.map_comp map_map)
qed

lemma base64_Encode_loop_eq:
  assumes "length (be_encode enc) = 64" and "k + base64_EncodedLen (length src) \<le> length dst"
  shows "base64_Encode_loop enc dst k src = Inr (copy_at dst k (base64_text (be_encode enc) src))"
  using assms(2)
proof (induction "length src" arbitrary: src dst k rule: less_induct)
  case less
  show ?case
  proof (cases "src = []")
    case True
    then show ?thesis by (simp add: base64_Encode_loop.simps)
  next
    case False
    define q where "q = (let q = map (\<lambda>d. be_encode enc ! unat d) (base64_sextets src);
        q = (if length src < 3 then q[3 := base64_pad] else q) in
        if length src < 2 then q[2 := base64_pad] else q)"
    have "length q = 4" by (simp add: q_def Let_def base64_sextets_def split: prod.splits)
    moreover have parts: "base64_text (be_encode enc) src = q @ base64_text (be_encode enc) (drop 3 src)"
      using base64_round [OF False, of "be_encode enc"] by (simp add: q_def Let_def)
    ultimately have len: "base64_EncodedLen (length src) = 4 + base64_EncodedLen (length src - 3)"
      using length_base64_text [of "be_encode enc" src] length_base64_text [of "be_encode enc" "drop 3 src"] by simp
    have "base64_Encode_loop enc dst k src =
        (if length src < 3 then Inr (copy_at dst k q) else base64_Encode_loop enc (copy_at dst k q) (k + 4) (drop 3 src))"
      using False less.prems len base64_sextets_less [OF False] assms(1)
      by (subst base64_Encode_loop.simps) (auto simp: q_def Let_def not_le [symmetric])
    moreover have "base64_Encode_loop enc (copy_at dst k q) (k + 4) (drop 3 src) =
        Inr (copy_at (copy_at dst k q) (k + 4) (base64_text (be_encode enc) (drop 3 src)))" if "\<not> length src < 3"
      using less.hyps [of "drop 3 src" "k + 4" "copy_at dst k q"] less.prems len that False by simp
    ultimately show ?thesis
      using parts \<open>length q = 4\<close> by (cases "length src < 3") (simp_all add: copy_at_append)
  qed
qed

lemma base64_Encode_eq:
  assumes "length (be_encode enc) = 64" and "base64_EncodedLen (length src) \<le> length dst"
  shows "base64_Encode enc dst src = Inr (copy_at dst 0 (base64_text (be_encode enc) src))"
  using base64_Encode_loop_eq [OF assms(1), of 0 src dst] assms(2) by (cases src) (simp_all add: base64_Encode_def)

subsection \<open>Decode\<close>

text \<open>What \<^verbatim>\<open>NewEncoding\<close> promises of its table, for an alphabet of 64 characters.\<close>

definition base64_alphabet :: "byte list \<Rightarrow> bool" where
  "base64_alphabet a \<longleftrightarrow> length a = 64 \<and> distinct a \<and> base64_pad \<notin> set a"

lemma base64_fill:
  fixes a m :: "byte list"
  assumes "distinct a" and "i < length a" and "length m = 256"
  shows "foldl (\<lambda>m (i, c). m[unat c := of_nat i]) m (enumerate n a) ! unat (a ! i) = (of_nat (n + i) :: byte)"
  using assms
proof (induction a arbitrary: m n i)
  case (Cons c a)
  have neq: "unat c \<noteq> unat d" if "c \<notin> set a" "d \<in> set a" for d a
    using that word_unat_eq_iff [of c d] by auto
  have other: "foldl (\<lambda>m (i, c). m[unat c := of_nat i]) m (enumerate n a) ! unat c = (m ! unat c :: byte)"
    if "c \<notin> set a" for m n a
    using that
  proof (induction a arbitrary: m n)
    case (Cons d a)
    then show ?case using neq [of "d # a" d] by (auto simp: nth_list_update_neq)
  qed simp
  show ?case
  proof (cases i)
    case 0
    then show ?thesis
      using Cons.prems other [of a "m[unat c := of_nat n]" "Suc n"] unat_byte_less [of c] by simp
  next
    case (Suc j)
    then show ?thesis using Cons.prems Cons.IH [of j "m[unat c := of_nat n]" "Suc n"] by simp
  qed
qed simp

lemma base64_decodeMap:
  assumes "base64_alphabet a" and "i < 64"
  shows "be_decodeMap (base64_NewEncoding a) ! unat (a ! i) = of_nat i"
  using assms base64_fill [of a i "replicate 256 0xFF" 0] unat_byte_less [of "a ! i"]
  by (simp add: base64_NewEncoding_def base64_alphabet_def)

lemma base64_alphabet_nth:
  assumes "base64_alphabet a" and "i < 64"
  shows "a ! i \<noteq> base64_pad" "(of_nat i :: byte) \<noteq> 0xFF" "unat (of_nat i :: byte) = i"
proof -
  show "a ! i \<noteq> base64_pad" using assms by (metis base64_alphabet_def nth_mem)
  show u: "unat (of_nat i :: byte) = i" using assms(2) by (simp add: unat_of_nat)
  show "(of_nat i :: byte) \<noteq> 0xFF"
  proof
    assume "(of_nat i :: byte) = 0xFF"
    then have "unat (of_nat i :: byte) = 255" by simp
    with u assms(2) show False by simp
  qed
qed

lemma base64_dbuf_step:
  assumes "base64_alphabet a" and "n < 64" and "src ! (i * 4 + j) = a ! n" and "j < 4"
  shows "base64_dbuf (base64_NewEncoding a) src i j dbuf =
    base64_dbuf (base64_NewEncoding a) src i (j + 1) (dbuf @ [of_nat n])"
  using assms base64_alphabet_nth [OF assms(1,2)] base64_decodeMap [OF assms(1,2)]
  by (subst base64_dbuf.simps) simp

lemma base64_digit_less:
  "unat (x :: byte) div 4 < 64" "unat x mod 4 * 16 + unat (y :: byte) div 16 < 64"
  "unat y mod 16 * 4 + unat (z :: byte) div 64 < 64"
  using unat_byte_less [of x] unat_byte_less [of y] unat_byte_less [of z] by simp_all

lemma base64_dbuf_digits:
  assumes "base64_alphabet a"
  shows "length ns \<le> 4 \<Longrightarrow> \<forall>j < length ns. ns ! j < 64 \<and> src ! (i * 4 + j) = a ! (ns ! j) \<Longrightarrow>
    base64_dbuf (base64_NewEncoding a) src i 0 [] = base64_dbuf (base64_NewEncoding a) src i (length ns) (map of_nat ns)"
proof (induction ns rule: rev_induct)
  case (snoc n ns)
  then have "base64_dbuf (base64_NewEncoding a) src i 0 [] =
      base64_dbuf (base64_NewEncoding a) src i (length ns) (map of_nat ns)"
    by (simp add: nth_append all_conj_distrib split: if_splits)
  also have "\<dots> = base64_dbuf (base64_NewEncoding a) src i (length ns + 1) (map of_nat ns @ [of_nat n])"
    using snoc.prems(1) spec [OF snoc.prems(2), of "length ns"] base64_dbuf_step [OF assms, of n src i "length ns"]
    by simp
  finally show ?case by simp
qed simp

lemma base64_pack_digits:
  assumes "n0 < 64" "n1 < 64" "n2 < 64" "n3 < 64"
  shows "map unat (base64_pack (map of_nat [n0, n1])) = [n0 * 4 + n1 div 16]"
    and "map unat (base64_pack (map of_nat [n0, n1, n2])) = [n0 * 4 + n1 div 16, n1 mod 16 * 16 + n2 div 4]"
    and "map unat (base64_pack (map of_nat [n0, n1, n2, n3])) =
      [n0 * 4 + n1 div 16, n1 mod 16 * 16 + n2 div 4, n2 mod 4 * 64 + n3]"
proof -
  have u: "unat (of_nat n :: byte) = n" if "n < 64" for n using that by (simp add: unat_of_nat)
  have "unat (push_bit 2 (of_nat n0) OR drop_bit 4 (of_nat n1) :: byte) = n0 * 4 + n1 div 16"
      "unat (push_bit 4 (of_nat n1) OR drop_bit 2 (of_nat n2) :: byte) = n1 mod 16 * 16 + n2 div 4"
      "unat (push_bit 6 (of_nat n2) OR of_nat n3 :: byte) = n2 mod 4 * 64 + n3"
    using unat_pack_byte [of 2 "drop_bit 4 (of_nat n1)" "of_nat n0"]
      unat_pack_byte [of 4 "drop_bit 2 (of_nat n2)" "of_nat n1"]
      unat_pack_byte [of 6 "of_nat n3" "of_nat n2"] assms
    by (simp_all add: u unat_drop_byte)
  then show "map unat (base64_pack (map of_nat [n0, n1])) = [n0 * 4 + n1 div 16]"
      "map unat (base64_pack (map of_nat [n0, n1, n2])) = [n0 * 4 + n1 div 16, n1 mod 16 * 16 + n2 div 4]"
      "map unat (base64_pack (map of_nat [n0, n1, n2, n3])) =
      [n0 * 4 + n1 div 16, n1 mod 16 * 16 + n2 div 4, n2 mod 4 * 64 + n3]"
    by (simp_all add: base64_pack_def)
qed

text \<open>The quantum \<open>i\<close> of a text.\<close>

lemma base64_dbuf_text:
  assumes a: "base64_alphabet a" and s: "s \<noteq> []" and src: "take 4 (drop (i * 4) src) = take 4 (base64_text a s)"
    and fin: "i + 1 = length src div 4 \<longleftrightarrow> length s \<le> 3" and len: "i * 4 + 4 \<le> length src"
  shows "\<exists>dbuf. base64_dbuf (base64_NewEncoding a) src i 0 [] = Inr (dbuf, length s < 3) \<and>
    map unat (base64_pack dbuf) = map unat (take 3 s) \<and> length dbuf = length (take 3 s) + 1"
proof -
  have nth: "src ! (i * 4 + j) = base64_text a s ! j" if "j < 4" for j
    using arg_cong [OF src, of "\<lambda>xs. xs ! j"] that len by simp
  have less: "\<And>P n. (\<forall>j < Suc n. P j) \<longleftrightarrow> P 0 \<and> (\<forall>j < n. P (Suc j))" by (auto simp: less_Suc_eq_0_disj)
  note digits = base64_dbuf_digits [OF a, of _ src i]
  consider x where "s = [x]" | x y where "s = [x, y]" | x y z s' where "s = x # y # z # s'"
    using s by (metis list.exhaust)
  then show ?thesis
  proof cases
    case 1
    let ?ns = "[unat x div 4, unat x mod 4 * 16]"
    have "base64_dbuf (base64_NewEncoding a) src i 0 [] = base64_dbuf (base64_NewEncoding a) src i 2 (map of_nat ?ns)"
      using digits [of ?ns] 1 nth [of 0] nth [of 1] unat_byte_less [of x] by (simp add: less numeral_2_eq_2)
    also have "\<dots> = Inr (map of_nat ?ns, True)"
      using 1 fin nth [of 2] nth [of 3] by (subst base64_dbuf.simps) simp
    finally show ?thesis
      using 1 base64_pack_digits(1) [of "unat x div 4" "unat x mod 4 * 16" 0 0] unat_byte_less [of x]
      by (intro exI [of _ "map of_nat ?ns"]) simp
  next
    case 2
    let ?ns = "[unat x div 4, unat x mod 4 * 16 + unat y div 16, unat y mod 16 * 4]"
    have "base64_dbuf (base64_NewEncoding a) src i 0 [] = base64_dbuf (base64_NewEncoding a) src i 3 (map of_nat ?ns)"
      using digits [of ?ns] 2 nth [of 0] nth [of 1] nth [of 2]
      by (simp add: less base64_digit_less numeral_2_eq_2 numeral_3_eq_3)
    also have "\<dots> = Inr (map of_nat ?ns, True)"
      using 2 fin nth [of 3] by (subst base64_dbuf.simps) simp
    finally show ?thesis
      using 2 base64_pack_digits(2) [of "?ns ! 0" "?ns ! 1" "?ns ! 2" 0] unat_byte_less [of x] unat_byte_less [of y]
      by (intro exI [of _ "map of_nat ?ns"]) simp
  next
    case 3
    let ?ns = "[unat x div 4, unat x mod 4 * 16 + unat y div 16, unat y mod 16 * 4 + unat z div 64, unat z mod 64]"
    have "base64_dbuf (base64_NewEncoding a) src i 0 [] = base64_dbuf (base64_NewEncoding a) src i (length ?ns) (map of_nat ?ns)"
      using 3 nth [of 0] nth [of 1] nth [of 2] nth [of 3]
      by (intro digits) (simp_all add: less base64_digit_less numeral_2_eq_2 numeral_3_eq_3)
    also have "\<dots> = Inr (map of_nat ?ns, False)" by (subst base64_dbuf.simps) simp
    finally show ?thesis
      using 3 base64_pack_digits(3) [of "?ns ! 0" "?ns ! 1" "?ns ! 2" "?ns ! 3"]
        unat_byte_less [of x] unat_byte_less [of y] unat_byte_less [of z]
      by (intro exI [of _ "map of_nat ?ns"]) simp
  qed
qed

lemma base64_decode_loop_text:
  assumes a: "base64_alphabet a" and dst: "length s \<le> length dst" and i: "3 * i \<le> length s"
  shows "base64_decode_loop (base64_NewEncoding a) dst (base64_text a s) i (3 * i) False =
    Inr (copy_at dst (3 * i) (drop (3 * i) s), length s, length s mod 3 \<noteq> 0 \<and> 3 * i < length s, None)"
  using dst i
proof (induction "length s - 3 * i" arbitrary: i dst rule: less_induct)
  case less
  let ?src = "base64_text a s" and ?m = "drop (3 * i) s"
  have quanta: "length ?src div 4 = (length s + 2) div 3"
    by (simp add: length_base64_text base64_EncodedLen_def)
  show ?case
  proof (cases "?m = []")
    case True
    then have m: "3 * i = length s" using less.prems by simp
    then have "\<not> i < (length s + 2) div 3" by presburger
    then show ?thesis by (subst base64_decode_loop.simps) (simp add: quanta m)
  next
    case False
    have inj: "inj (unat :: byte \<Rightarrow> nat)" by (simp add: inj_def word_unat_eq_iff)
    have "take 4 (drop (i * 4) ?src) = take 4 (base64_text a ?m)"
      using base64_text_drop [of i a s] by (simp add: mult.commute)
    moreover have "i + 1 = length ?src div 4 \<longleftrightarrow> length ?m \<le> 3"
      using False less.prems by (simp add: quanta) presburger
    moreover have lt: "i < (length s + 2) div 3" using False by simp
    moreover from lt have "i * 4 + 4 \<le> length ?src"
      by (simp add: length_base64_text base64_EncodedLen_def)
    ultimately obtain dbuf where d: "base64_dbuf (base64_NewEncoding a) ?src i 0 [] = Inr (dbuf, length ?m < 3)"
        "base64_pack dbuf = take 3 ?m" "length dbuf = length (take 3 ?m) + 1"
      using base64_dbuf_text [OF a False, of i ?src] inj_map_eq_map [OF inj] by auto
    let ?dst = "copy_at dst (i * 3) (take 3 ?m)"
    have step: "base64_decode_loop (base64_NewEncoding a) dst ?src i (3 * i) False =
        base64_decode_loop (base64_NewEncoding a) ?dst ?src (i + 1) (3 * i + length (take 3 ?m)) (length ?m < 3)"
      using lt quanta d less.prems by (subst base64_decode_loop.simps) auto
    show ?thesis
    proof (cases "length ?m < 3")
      case True
      then have "length s mod 3 \<noteq> 0" "take 3 ?m = ?m" using False less.prems by (simp_all, presburger)
      then show ?thesis using True False less.prems step
        by (simp add: base64_decode_loop.simps [of _ _ _ _ _ True] mult.commute)
    next
      case ge: False
      then have "drop (3 * i) s = take 3 ?m @ drop (3 * (i + 1)) s"
        by (metis append_take_drop_id drop_drop distrib_left mult.right_neutral add.commute)
      then have "copy_at dst (3 * i) (drop (3 * i) s) = copy_at ?dst (3 * (i + 1)) (drop (3 * (i + 1)) s)"
        using ge copy_at_append [of dst "3 * i" "take 3 ?m" "drop (3 * (i + 1)) s"] by (simp add: mult.commute add.commute)
      moreover have "length s mod 3 \<noteq> 0 \<longleftrightarrow> length s mod 3 \<noteq> 0 \<and> 3 * (i + 1) < length s"
        using ge less.prems by (auto simp: not_less) presburger
      ultimately show ?thesis
        using less.hyps [of "i + 1" ?dst] ge less.prems step False by (simp add: mult.commute add.commute)
    qed
  qed
qed

lemma base64_decode_text:
  assumes "base64_alphabet a" and "length s \<le> length dst"
  shows "base64_decode (base64_NewEncoding a) dst (base64_text a s) =
    Inr (copy_at dst 0 s, length s, length s mod 3 \<noteq> 0, None)"
  using base64_decode_loop_text [OF assms, of 0] by (cases s) (simp_all add: base64_decode_def)

subsection \<open>The stream encoder\<close>

text \<open>
  The encoder between calls, over a writer with the invariant \<open>wok\<close>: it has no error, and \<open>out0\<close> has
  been written to its writer.
\<close>

definition base64_ready :: "('w \<Rightarrow> bool) \<Rightarrow> ('w \<Rightarrow> byte list) \<Rightarrow> byte list \<Rightarrow> byte list \<Rightarrow> 'w base64_encoder \<Rightarrow> bool" where
  "base64_ready wok out a out0 e \<longleftrightarrow>
     b64e_err e = None \<and> be_encode (b64e_enc e) = a \<and> length a = 64 \<and> wok (b64e_w e) \<and>
     length (b64e_buf e) = 3 \<and> length (b64e_out e) = 1024 \<and> out (b64e_w e) = out0"

text \<open>
  The state after \<open>data\<close> has been written: whole groups of three bytes have gone out as text, and up
  to two bytes wait in the buffer.
\<close>

definition base64_inv ::
    "('w \<Rightarrow> bool) \<Rightarrow> ('w \<Rightarrow> byte list) \<Rightarrow> byte list \<Rightarrow> byte list \<Rightarrow> byte list \<Rightarrow> 'w base64_encoder \<Rightarrow> bool" where
  "base64_inv wok out a out0 data e \<longleftrightarrow>
     (\<exists>done rest. data = done @ rest \<and> length done mod 3 = 0 \<and> length rest < 3 \<and>
        base64_ready wok out a (out0 @ base64_text a done) e \<and>
        b64e_nbuf e = length rest \<and> take (length rest) (b64e_buf e) = rest)"

lemma base64_text_append:
  assumes "length xs mod 3 = 0"
  shows "base64_text a (xs @ ys) = base64_text a xs @ base64_text a ys"
proof -
  obtain q where "length xs = 3 * q" using assms by auto
  then show ?thesis
    using base64_text_take [of q a "xs @ ys"] base64_text_drop [of q a "xs @ ys"]
    by (metis append_eq_conv_conj append_take_drop_id)
qed

context io_sink
begin

lemma base64_flush_ready:
  assumes "base64_ready wok out a out0 e" and "length src \<le> 768"
  shows "\<exists>e'. base64_flush wops e src (base64_EncodedLen (length src)) = Inr e' \<and>
    base64_ready wok out a (out0 @ base64_text a src) e' \<and> b64e_buf e' = b64e_buf e \<and> b64e_nbuf e' = b64e_nbuf e"
proof -
  have len: "base64_EncodedLen (length src) \<le> 1024"
    using assms(2) by (simp add: base64_EncodedLen_def)
  define o1 where "o1 = copy_at (b64e_out e) 0 (base64_text a src)"
  have "base64_Encode (b64e_enc e) (b64e_out e) src = Inr o1"
    using base64_Encode_eq [of "b64e_enc e" src "b64e_out e"] assms(1) len by (simp add: base64_ready_def o1_def)
  moreover have "take (base64_EncodedLen (length src)) o1 = base64_text a src"
    using take_copy_at [of 0 "base64_text a src" "b64e_out e"] assms(1) len
    by (simp add: o1_def length_base64_text base64_ready_def)
  moreover obtain w n err where wr: "w_Write wops (b64e_w e) (base64_text a src) = (w, n, err)" by (metis prod_cases3)
  moreover have "wok (b64e_w e)" using assms(1) by (simp add: base64_ready_def)
  ultimately show ?thesis
    using Write_ok [OF _ wr] Write_out [OF _ wr] Write_no_error [OF _ wr] Write_short [of "b64e_w e" "base64_text a src"] assms(1)
    by (auto simp: base64_flush_def base64_ready_def o1_def)
qed

lemma base64_interior_ready:
  "base64_ready wok out a out0 e \<Longrightarrow>
   \<exists>e' done rest. base64_interior wops e n p = Inr (e', n + length done, rest) \<and> p = done @ rest \<and>
     length done mod 3 = 0 \<and> length rest < 3 \<and> base64_ready wok out a (out0 @ base64_text a done) e' \<and>
     b64e_buf e' = b64e_buf e \<and> b64e_nbuf e' = b64e_nbuf e"
proof (induction "length p" arbitrary: p e n out0 rule: less_induct)
  case less
  show ?case
  proof (cases "length p < 3")
    case True
    then show ?thesis using less.prems
      by (intro exI [of _ e] exI [of _ "[]"] exI [of _ p]) (simp add: base64_interior.simps)
  next
    case False
    define nn where "nn = (if 768 > length p then length p else 768) - (if 768 > length p then length p else 768) mod 3"
    have nn: "0 < nn" "nn \<le> length p" "nn \<le> 768" "nn mod 3 = 0" using False by (auto simp: nn_def)
    then have "base64_EncodedLen nn = nn div 3 * 4" by (auto simp: base64_EncodedLen_def)
    then obtain e1 where e1: "base64_flush wops e (take nn p) (nn div 3 * 4) = Inr e1"
        "base64_ready wok out a (out0 @ base64_text a (take nn p)) e1"
        "b64e_buf e1 = b64e_buf e" "b64e_nbuf e1 = b64e_nbuf e"
      using base64_flush_ready [OF less.prems, of "take nn p"] nn by auto
    have step: "base64_interior wops e n p = base64_interior wops e1 (n + nn) (drop nn p)"
    proof -
      have "(let nn = 1024 div 4 * 3; nn = (if nn > length p then length p else nn); nn = nn - nn mod 3 in F nn) = F nn"
        for F :: "nat \<Rightarrow> ('a base64_encoder \<times> nat \<times> byte list) go" by (simp add: nn_def Let_def)
      note chunk = this
      have "b64e_err e1 = None" using e1(2) by (simp add: base64_ready_def)
      then show ?thesis using False e1 nn by (subst base64_interior.simps) (simp only: chunk, simp)
    qed
    have shorter: "length (drop nn p) < length p" using nn by simp
    obtain e2 d2 rest where IH: "base64_interior wops e1 (n + nn) (drop nn p) = Inr (e2, n + nn + length d2, rest)"
        "drop nn p = d2 @ rest" "length d2 mod 3 = 0" "length rest < 3"
        "base64_ready wok out a ((out0 @ base64_text a (take nn p)) @ base64_text a d2) e2"
        "b64e_buf e2 = b64e_buf e" "b64e_nbuf e2 = b64e_nbuf e"
      using less.hyps [OF shorter e1(2), of "n + nn"] unfolding e1(3,4) by (elim exE conjE) (rule that)
    have "p = (take nn p @ d2) @ rest" using IH(2) by (metis append_assoc append_take_drop_id)
    moreover have "base64_text a (take nn p @ d2) = base64_text a (take nn p) @ base64_text a d2"
      using nn by (intro base64_text_append) (simp add: min_def)
    moreover have "length (take nn p @ d2) = nn + length d2" "(nn + length d2) mod 3 = 0" using nn IH(3) by auto
    ultimately show ?thesis using IH step
      by (intro exI [of _ e2] exI [of _ "take nn p @ d2"] exI [of _ rest]) (simp add: add.assoc)
  qed
qed

lemma base64_tail:
  assumes "base64_ready wok out a (out0 @ base64_text a data) e" and "length data mod 3 = 0"
  shows "\<exists>e'. go_bind (base64_interior wops (e\<lparr>b64e_nbuf := 0\<rparr>) n p) (\<lambda>(e, n, p).
      if b64e_err e \<noteq> None then Inr (e, n, b64e_err e)
      else Inr (e\<lparr>b64e_buf := copy_at (b64e_buf e) 0 p, b64e_nbuf := length p\<rparr>, n + length p, None)) =
    Inr (e', n + length p, None) \<and> base64_inv wok out a out0 (data @ p) e'"
proof -
  have "base64_ready wok out a (out0 @ base64_text a data) (e\<lparr>b64e_nbuf := 0\<rparr>)"
    using assms(1) by (simp add: base64_ready_def)
  from base64_interior_ready [OF this, of n p] obtain e1 d rest where
      e1: "base64_interior wops (e\<lparr>b64e_nbuf := 0\<rparr>) n p = Inr (e1, n + length d, rest)" "p = d @ rest"
        "length d mod 3 = 0" "length rest < 3"
        "base64_ready wok out a ((out0 @ base64_text a data) @ base64_text a d) e1"
    by (elim exE conjE) (rule that)
  define e2 where "e2 = e1\<lparr>b64e_buf := copy_at (b64e_buf e1) 0 rest, b64e_nbuf := length rest\<rparr>"
  have "base64_text a (data @ d) = base64_text a data @ base64_text a d"
    using assms(2) by (rule base64_text_append)
  then have "base64_ready wok out a (out0 @ base64_text a (data @ d)) e2" "take (length rest) (b64e_buf e2) = rest"
    using e1(4,5) take_copy_at [of 0 rest "b64e_buf e1"] by (simp_all add: base64_ready_def e2_def)
  moreover have "length (data @ d) mod 3 = 0" using assms(2) e1(3) by auto
  ultimately have "base64_inv wok out a out0 (data @ p) e2"
    unfolding base64_inv_def using e1(2,4) by (intro exI [of _ "data @ d"] exI [of _ rest]) (simp add: e2_def)
  moreover have "b64e_err e1 = None" using e1(5) by (simp add: base64_ready_def)
  ultimately show ?thesis using e1(1,2) by (simp add: e2_def)
qed

lemma base64_Write_inv:
  assumes "base64_inv wok out a out0 data e"
  shows "\<exists>e'. base64_Write wops e p = Inr (e', length p, None) \<and> base64_inv wok out a out0 (data @ p) e'"
proof -
  obtain d rest where inv: "data = d @ rest" "length d mod 3 = 0" "length rest < 3" "b64e_nbuf e = length rest"
      "base64_ready wok out a (out0 @ base64_text a d) e" "take (length rest) (b64e_buf e) = rest"
    using assms unfolding base64_inv_def by auto
  have err: "b64e_err e = None" and buf: "length (b64e_buf e) = 3" using inv(5) by (simp_all add: base64_ready_def)
  show ?thesis
  proof (cases "rest = []")
    case True
    then show ?thesis using base64_tail [OF inv(5,2), of 0 p] inv err
      by (simp add: base64_Write_def)
  next
    case False
    define i where "i = min (length p) (3 - length rest)"
    define e1 where "e1 = e\<lparr>b64e_buf := copy_at (b64e_buf e) (length rest) (take i p), b64e_nbuf := length rest + i\<rparr>"
    have i: "length (take i p) = i" "length rest + i \<le> 3" using inv(3) by (auto simp: i_def)
    have e1: "base64_ready wok out a (out0 @ base64_text a d) e1"
        "take (length rest + i) (b64e_buf e1) = rest @ take i p"
      using inv(5,6) i buf take_copy_at [of "length rest" "take i p" "b64e_buf e"]
      by (simp_all add: base64_ready_def e1_def)
    show ?thesis
    proof (cases "length rest + i < 3")
      case True
      then have ip: "i = length p" by (simp add: i_def)
      then have "base64_Write wops e p = Inr (e1, length p, None)"
        using True False inv(4) err by (simp add: base64_Write_def e1_def i_def Let_def)
      moreover have "base64_inv wok out a out0 (data @ p) e1"
        unfolding base64_inv_def using True e1 inv(1,2) ip
        by (intro exI [of _ d] exI [of _ "rest @ p"]) (simp add: e1_def)
      ultimately show ?thesis by blast
    next
      case three: False
      then have i3: "i = 3 - length rest" "length rest + i = 3" using i by auto
      then have full: "b64e_buf e1 = rest @ take i p" using e1 by (simp add: base64_ready_def)
      then have "base64_flush wops e1 (b64e_buf e1) 4 = base64_flush wops e1 (rest @ take i p)
          (base64_EncodedLen (length (rest @ take i p)))"
        using i i3 by (simp add: base64_EncodedLen_def)
      then obtain e2 where e2: "base64_flush wops e1 (b64e_buf e1) 4 = Inr e2"
          "base64_ready wok out a ((out0 @ base64_text a d) @ base64_text a (rest @ take i p)) e2"
        using base64_flush_ready [OF e1(1), of "rest @ take i p"] i by auto
      have "base64_text a (data @ take i p) = base64_text a d @ base64_text a (rest @ take i p)"
        using base64_text_append [OF inv(2), of a "rest @ take i p"] inv(1) by simp
      then have ready: "base64_ready wok out a (out0 @ base64_text a (data @ take i p)) e2" using e2(2) by simp
      have "length (data @ take i p) mod 3 = 0" using inv(1,2) i i3 by auto
      from base64_tail [OF ready this, of i "drop i p"] obtain e3 where
          "go_bind (base64_interior wops (e2\<lparr>b64e_nbuf := 0\<rparr>) i (drop i p)) (\<lambda>(e, n, p).
             if b64e_err e \<noteq> None then Inr (e, n, b64e_err e)
             else Inr (e\<lparr>b64e_buf := copy_at (b64e_buf e) 0 p, b64e_nbuf := length p\<rparr>, n + length p, None)) =
           Inr (e3, i + length (drop i p), None)"
          "base64_inv wok out a out0 ((data @ take i p) @ drop i p) e3"
        by (elim exE conjE) (rule that)
      moreover have "i + length (drop i p) = length p" "i \<le> length p" using i by auto
      moreover have "b64e_err e2 = None" using ready by (simp add: base64_ready_def)
      moreover have "e1 = e\<lparr>b64e_buf := copy_at (b64e_buf e) (length rest) (take (3 - length rest) p), b64e_nbuf := 3\<rparr>"
        using i3 by (simp add: e1_def)
      ultimately show ?thesis
        using False three i3 inv(4) err e2(1) by (simp add: base64_Write_def Let_def min_absorb2)
    qed
  qed
qed

lemma base64_Close_inv:
  assumes "base64_inv wok out a out0 data e"
  shows "\<exists>e'. base64_Close wops e = Inr (e', None) \<and> wok (b64e_w e') \<and> out (b64e_w e') = out0 @ base64_text a data"
proof -
  obtain d rest where inv: "data = d @ rest" "length d mod 3 = 0" "length rest < 3" "b64e_nbuf e = length rest"
      "base64_ready wok out a (out0 @ base64_text a d) e" "take (length rest) (b64e_buf e) = rest"
    using assms unfolding base64_inv_def by auto
  show ?thesis
  proof (cases "rest = []")
    case True
    then show ?thesis using inv by (simp add: base64_Close_def base64_ready_def)
  next
    case False
    then have "1 \<le> length rest" by (cases rest) auto
    then have four: "base64_EncodedLen (length rest) = 4" using inv(3) by (auto simp: base64_EncodedLen_def)
    have "base64_ready wok out a (out0 @ base64_text a d) (e\<lparr>b64e_nbuf := 0\<rparr>)"
      using inv(5) by (simp add: base64_ready_def)
    from base64_flush_ready [OF this, of rest] obtain e1 where
        "base64_flush wops (e\<lparr>b64e_nbuf := 0\<rparr>) rest 4 = Inr e1"
        "base64_ready wok out a ((out0 @ base64_text a d) @ base64_text a rest) e1"
      using inv(3) four by auto
    then show ?thesis using False inv base64_text_append [OF inv(2), of a rest]
      by (simp add: base64_Close_def base64_ready_def)
  qed
qed

end

text \<open>A sequence of calls of \<^verbatim>\<open>Write\<close>, one for each element of the list, and a \<^verbatim>\<open>Close\<close>.\<close>

fun base64_stream ::
    "'w writer_ops \<Rightarrow> 'w base64_encoder \<Rightarrow> byte list list \<Rightarrow> ('w base64_encoder \<times> os_error option) go" where
  "base64_stream ops e [] = base64_Close ops e"
| "base64_stream ops e (p # ps) =
     go_bind (base64_Write ops e p) (\<lambda>(e, n, err). if err \<noteq> None then Inr (e, err) else base64_stream ops e ps)"

context io_sink
begin

lemma base64_stream_text:
  "base64_inv wok out a out0 data e \<Longrightarrow>
   \<exists>e'. base64_stream wops e ps = Inr (e', None) \<and> wok (b64e_w e') \<and>
     out (b64e_w e') = out0 @ base64_text a (data @ concat ps)"
proof (induction ps arbitrary: e data)
  case Nil
  then show ?case using base64_Close_inv by simp
next
  case (Cons p ps)
  then show ?case using base64_Write_inv [OF Cons.prems, of p] by force
qed

lemma base64_NewEncoder_inv:
  "length (be_encode enc) = 64 \<Longrightarrow> wok w \<Longrightarrow> base64_inv wok out (be_encode enc) (out w) [] (base64_NewEncoder enc w)"
  by (simp add: base64_inv_def base64_ready_def base64_NewEncoder_def)

end

lemma base64_alphabets: "base64_alphabet encodeStd" "base64_alphabet encodeURL"
  by code_simp+

subsection \<open>Properties\<close>

text \<open>
  C27: for every alphabet of 64 distinct characters without \<^verbatim>\<open>=\<close>, and so for \<^verbatim>\<open>StdEncoding\<close> and
  \<^verbatim>\<open>URLEncoding\<close>, \<^verbatim>\<open>Encode\<close> into a slice of \<^verbatim>\<open>EncodedLen\<close> bytes stores the text of RFC 4648, and
  \<^verbatim>\<open>Decode\<close> of that text into a slice of \<^verbatim>\<open>DecodedLen\<close> bytes stores the data back and returns its
  length; neither panics.
\<close>

theorem base64_roundtrip:
  assumes "base64_alphabet a" and "length dst = base64_EncodedLen (length s)"
    and "length dst' = base64_DecodedLen (length dst)"
  shows "base64_Encode (base64_NewEncoding a) dst s = Inr (base64_text a s) \<and>
    (\<exists>rest. base64_Decode (base64_NewEncoding a) dst' (base64_text a s) = Inr (s @ rest, length s, None))"
proof -
  have "length (be_encode (base64_NewEncoding a)) = 64" "be_encode (base64_NewEncoding a) = a"
    using assms(1) by (simp_all add: base64_NewEncoding_def base64_alphabet_def)
  then have "base64_Encode (base64_NewEncoding a) dst s = Inr (base64_text a s)"
    using base64_Encode_eq [of "base64_NewEncoding a" s dst] assms(2) by (simp add: copy_at_all length_base64_text)
  moreover have "length s \<le> length dst'"
    using assms(2,3) by (simp add: base64_DecodedLen_def base64_EncodedLen_def)
  moreover have "length (base64_text a s) mod 4 = 0" by (simp add: length_base64_text base64_EncodedLen_def)
  ultimately show ?thesis
    using base64_decode_text [OF assms(1), of s dst'] by (simp add: base64_Decode_def copy_at_eq)
qed

theorem base64_roundtrip_witness:
  "base64_Encode base64_StdEncoding (replicate 8 0) [0x66, 0x6F, 0x6F, 0x62] =
     Inr (bytes_of ''Zm9vYg=='') \<and>
   (\<exists>rest. base64_Decode base64_StdEncoding (replicate 6 0) (bytes_of ''Zm9vYg=='') =
     Inr ([0x66, 0x6F, 0x6F, 0x62] @ rest, 4, None))"
proof -
  have four: "Suc (Suc (Suc (Suc 0))) = 4" by simp
  have "base64_text encodeStd [0x66, 0x6F, 0x6F, 0x62] = bytes_of ''Zm9vYg==''" by code_simp
  then show ?thesis
    using base64_roundtrip [OF base64_alphabets(1), of "replicate 8 0" "[0x66, 0x6F, 0x6F, 0x62]" "replicate 6 0"]
    by (simp add: base64_StdEncoding_def base64_EncodedLen_def base64_DecodedLen_def four)
qed

text \<open>
  C28: the stream encoder writes to a \<^verbatim>\<open>Buffer\<close>, after what was there before, the same text as one
  \<^verbatim>\<open>Encode\<close> of all the data, however the data is cut into calls of \<^verbatim>\<open>Write\<close>: bytes that wait in the
  encoder's buffer across calls, and the padding that \<^verbatim>\<open>Close\<close> writes, included. No call panics or
  returns an error.
\<close>

theorem base64_stream_encoder:
  assumes "base64_alphabet a" and "buffer_ok w"
  shows "\<exists>e. base64_stream buffer_writer (base64_NewEncoder (base64_NewEncoding a) w) ps = Inr (e, None) \<and>
    buffer_Bytes (b64e_w e) = buffer_Bytes w @ base64_text a (concat ps)"
proof -
  have "be_encode (base64_NewEncoding a) = a" "length a = 64"
    using assms(1) by (simp_all add: base64_NewEncoding_def base64_alphabet_def)
  then show ?thesis
    using buf_sink.base64_stream_text [OF buf_sink.base64_NewEncoder_inv [of "base64_NewEncoding a" w], of ps] assms(2)
    by auto
qed

theorem base64_stream_encoder_witness:
  "\<exists>e. base64_stream buffer_writer (base64_NewEncoder base64_StdEncoding buffer_zero) [[0x66], [0x6F, 0x6F, 0x62]] = Inr (e, None) \<and>
     buffer_Bytes (b64e_w e) = bytes_of ''Zm9vYg==''"
proof -
  have "base64_text encodeStd [0x66, 0x6F, 0x6F, 0x62] = bytes_of ''Zm9vYg==''" by code_simp
  then show ?thesis
    using base64_stream_encoder [OF base64_alphabets(1) buffer_zero_ok(1), of "[[0x66], [0x6F, 0x6F, 0x62]]"]
    by (simp add: base64_StdEncoding_def buffer_zero_ok)
qed

end
