(* ===== verification/Base64_Decoder.thy ===== *)
theory Base64_Decoder
  imports Base64
begin

text \<open>
  The stream decoder of \<^verbatim>\<open>encoding/base64\<close>. \<^verbatim>\<open>Read\<close> fills its buffer through \<^verbatim>\<open>io.ReadAtLeast\<close>, so it
  may not return; otherwise it may panic: hence an option of a fallible result. Over a source that
  delivers the text of some data, in whatever pieces, the calls of \<^verbatim>\<open>Read\<close> deliver the data and then
  \<^verbatim>\<open>os.EOF\<close>.
\<close>

subsection \<open>The code\<close>

record 'r base64_decoder =
  b64d_err :: "os_error option"
  b64d_enc :: base64_Encoding
  b64d_r :: 'r
  b64d_end :: bool
  b64d_buf :: "byte list"
  b64d_nbuf :: nat
  b64d_out :: "byte list"
  b64d_outbuf :: "byte list"

text \<open>
  The second half of \<^verbatim>\<open>Read\<close>, once \<^verbatim>\<open>d.buf\<close> holds at least four bytes: decode the whole quanta, into
  \<^verbatim>\<open>d.outbuf\<close> if \<^verbatim>\<open>p\<close> (of length \<open>k\<close>) may be too small, and keep the rest.
\<close>

definition base64_decode_chunk ::
    "'r base64_decoder \<Rightarrow> nat \<Rightarrow> ('r base64_decoder \<times> byte list \<times> os_error option) go" where
  "base64_decode_chunk d k =
     (let nr = b64d_nbuf d div 4 * 4; nw = b64d_nbuf d div 4 * 3
      in go_bind
           (if nw > k then
              go_bind (base64_decode (b64d_enc d) (b64d_outbuf d) (take nr (b64d_buf d))) (\<lambda>(outbuf, nw, fin, err).
                let out = take nw outbuf
                in Inr (d\<lparr>b64d_outbuf := outbuf, b64d_end := fin, b64d_err := err,
                          b64d_out := drop (length (take k out)) out\<rparr>, take k out))
            else
              go_bind (base64_decode (b64d_enc d) (replicate k 0) (take nr (b64d_buf d))) (\<lambda>(p, n, fin, err).
                Inr (d\<lparr>b64d_end := fin, b64d_err := err\<rparr>, take n p)))
           (\<lambda>(d, bs).
              let nbuf = b64d_nbuf d - nr;
                  d = d\<lparr>b64d_nbuf := nbuf, b64d_buf := copy_at (b64d_buf d) 0 (take nbuf (drop nr (b64d_buf d)))\<rparr>
              in Inr (d, bs, b64d_err d)))"

definition base64_Read ::
    "'r reader_ops \<Rightarrow> 'r base64_decoder \<Rightarrow> nat \<Rightarrow>
     ('r base64_decoder \<times> byte list \<times> os_error option) go option" where
  "base64_Read ops d k =
     (if b64d_err d \<noteq> None then Some (Inr (d, [], b64d_err d))
      else if length (b64d_out d) > 0 then
        (let bs = take k (b64d_out d) in Some (Inr (d\<lparr>b64d_out := drop (length bs) (b64d_out d)\<rparr>, bs, None)))
      else
        let nn = k div 3 * 4;
            nn = (if nn < 4 then 4 else nn);
            nn = (if nn > length (b64d_buf d) then length (b64d_buf d) else nn)
        in case io_ReadAtLeast ops (b64d_r d) (nn - b64d_nbuf d) (4 - b64d_nbuf d) of
             None \<Rightarrow> None
           | Some (r, got, err) \<Rightarrow>
               let d = d\<lparr>b64d_r := r, b64d_err := err, b64d_buf := copy_at (b64d_buf d) (b64d_nbuf d) got,
                         b64d_nbuf := b64d_nbuf d + length got\<rparr>
               in if b64d_nbuf d < 4 then Some (Inr (d, [], b64d_err d))
                  else Some (base64_decode_chunk d k))"

definition base64_NewDecoder :: "base64_Encoding \<Rightarrow> 'r \<Rightarrow> 'r base64_decoder" where
  "base64_NewDecoder enc r =
     \<lparr>b64d_err = None, b64d_enc = enc, b64d_r = r, b64d_end = False, b64d_buf = replicate 1024 0, b64d_nbuf = 0,
      b64d_out = [], b64d_outbuf = replicate 768 0\<rparr>"

text \<open>Calls of \<^verbatim>\<open>Read\<close> with slices of the given lengths, until one fails: all bytes and the error.\<close>

fun base64_Reads ::
    "'r reader_ops \<Rightarrow> 'r base64_decoder \<Rightarrow> nat list \<Rightarrow> (byte list \<times> os_error option) go option" where
  "base64_Reads ops d [] = Some (Inr ([], None))"
| "base64_Reads ops d (k # ks) =
     (case base64_Read ops d k of
        None \<Rightarrow> None
      | Some (Inl e) \<Rightarrow> Some (Inl e)
      | Some (Inr (d, bs, err)) \<Rightarrow>
          if err \<noteq> None then Some (Inr (bs, err))
          else (case base64_Reads ops d ks of
                  None \<Rightarrow> None
                | Some r \<Rightarrow> Some (go_bind r (\<lambda>(cs, err). Inr (bs @ cs, err)))))"

subsection \<open>The invariant\<close>

text \<open>\<open>xs\<close> is the data that the decoder has still to deliver.\<close>

definition base64_pending ::
    "('r \<Rightarrow> bool) \<Rightarrow> ('r \<Rightarrow> byte list) \<Rightarrow> byte list \<Rightarrow> byte list \<Rightarrow> 'r base64_decoder \<Rightarrow> bool" where
  "base64_pending rok src a xs d \<longleftrightarrow>
     b64d_err d = None \<and> b64d_enc d = base64_NewEncoding a \<and> rok (b64d_r d) \<and> length (b64d_buf d) = 1024 \<and>
     length (b64d_outbuf d) = 768 \<and> b64d_nbuf d < 4 \<and>
     (\<exists>ys. xs = b64d_out d @ ys \<and> take (b64d_nbuf d) (b64d_buf d) @ src (b64d_r d) = base64_text a ys)"

lemma base64_text_short: "length (base64_text a ys) < 4 \<Longrightarrow> ys = []"
  by (cases "(a, ys)" rule: base64_text.cases) auto

lemma base64_decode_chunk_pending:
  assumes a: "base64_alphabet a" and d: "b64d_enc d = base64_NewEncoding a" "length (b64d_buf d) = 1024"
      "length (b64d_outbuf d) = 768" "b64d_out d = []" "rok (b64d_r d)"
    and n: "4 \<le> b64d_nbuf d" "b64d_nbuf d \<le> 1024"
    and ys: "take (b64d_nbuf d) (b64d_buf d) @ src (b64d_r d) = base64_text a ys"
  shows "\<exists>d'. base64_decode_chunk d k = Inr (d', take k (take (b64d_nbuf d div 4 * 3) ys), None) \<and>
    base64_pending rok src a (drop k (take (b64d_nbuf d div 4 * 3) ys) @ drop (b64d_nbuf d div 4 * 3) ys) d'"
proof -
  define q nr zs where "q = b64d_nbuf d div 4" and "nr = 4 * q" and "zs = take (3 * q) ys"
  have q: "nr \<le> b64d_nbuf d" "b64d_nbuf d - nr < 4" "3 * q \<le> 768" using n by (auto simp: nr_def q_def)
  have "take nr (b64d_buf d) = take nr (take (b64d_nbuf d) (b64d_buf d) @ src (b64d_r d))"
    using q n d(2) by (simp add: min_def)
  then have chunk: "take nr (b64d_buf d) = base64_text a zs"
    by (simp add: ys nr_def zs_def base64_text_take)
  have "drop nr (take (b64d_nbuf d) (b64d_buf d)) @ src (b64d_r d) = drop nr (take (b64d_nbuf d) (b64d_buf d) @ src (b64d_r d))"
    using q n d(2) by simp
  then have left: "take (b64d_nbuf d - nr) (drop nr (b64d_buf d)) @ src (b64d_r d) = base64_text a (drop (3 * q) ys)"
    by (simp add: ys nr_def base64_text_drop drop_take)
  have zs: "length zs \<le> 3 * q" by (simp add: zs_def)
  define buf1 where "buf1 = copy_at (b64d_buf d) 0 (take (b64d_nbuf d - nr) (drop nr (b64d_buf d)))"
  have "length (take (b64d_nbuf d - nr) (drop nr (b64d_buf d))) = b64d_nbuf d - nr" using d(2) n by simp
  then have buf1: "length buf1 = 1024" "take (b64d_nbuf d - nr) buf1 = take (b64d_nbuf d - nr) (drop nr (b64d_buf d))"
    using d(2) q(2) take_copy_at [of 0 "take (b64d_nbuf d - nr) (drop nr (b64d_buf d))" "b64d_buf d"]
    by (simp_all add: buf1_def)
  have dec: "base64_decode (base64_NewEncoding a) dst (take nr (b64d_buf d)) =
      Inr (copy_at dst 0 zs, length zs, length zs mod 3 \<noteq> 0, None)" if "length zs \<le> length dst" for dst
    using base64_decode_text [OF a that] by (simp add: chunk)
  have out: "take (length zs) (copy_at dst 0 zs) = zs" if "length zs \<le> length dst" for dst
    using take_copy_at [of 0 zs dst] that by simp
  note eqs = q_def [symmetric] nr_def [symmetric] mult.commute [of q]
  show ?thesis
  proof (cases "3 * q > k")
    case True
    have "length zs \<le> length (b64d_outbuf d)" using zs q(3) d(3) by simp
    then show ?thesis using True dec [of "b64d_outbuf d"] out [of "b64d_outbuf d"] d buf1 q(2) left
      by (auto simp: base64_decode_chunk_def Let_def eqs zs_def [symmetric] buf1_def [symmetric] base64_pending_def min_def
          simp del: take_take)
  next
    case False
    then have "length zs \<le> length (replicate k (0 :: byte))" using zs by simp
    then show ?thesis using False dec [of "replicate k 0"] out [of "replicate k 0"] d buf1 q(2) left zs
      by (auto simp: base64_decode_chunk_def Let_def eqs zs_def [symmetric] buf1_def [symmetric] base64_pending_def)
  qed
qed

context io_source
begin

text \<open>
  One call of \<^verbatim>\<open>Read\<close> with a slice that is not empty: it returns, delivers at least one byte of what is
  pending, and reports \<^verbatim>\<open>os.EOF\<close> exactly when nothing is.
\<close>

lemma base64_Read_pending:
  assumes a: "base64_alphabet a" and p: "base64_pending rok src a xs d" and k: "0 < k"
  shows "\<exists>d' bs e. base64_Read rops d k = Some (Inr (d', bs, e)) \<and>
    (if xs = [] then bs = [] \<and> e = Some EOF
     else e = None \<and> bs \<noteq> [] \<and> (\<exists>ys. xs = bs @ ys \<and> base64_pending rok src a ys d'))"
proof -
  obtain ys where d: "b64d_err d = None" "b64d_enc d = base64_NewEncoding a" "rok (b64d_r d)" "length (b64d_buf d) = 1024"
      "length (b64d_outbuf d) = 768" "b64d_nbuf d < 4" and xs: "xs = b64d_out d @ ys"
      and ys: "take (b64d_nbuf d) (b64d_buf d) @ src (b64d_r d) = base64_text a ys"
    using p unfolding base64_pending_def by blast
  show ?thesis
  proof (cases "b64d_out d = []")
    case False
    let ?d = "d\<lparr>b64d_out := drop (length (take k (b64d_out d))) (b64d_out d)\<rparr>"
    have "base64_Read rops d k = Some (Inr (?d, take k (b64d_out d), None))"
      using False d(1) by (simp add: base64_Read_def Let_def)
    moreover have "base64_pending rok src a (drop k (b64d_out d) @ ys) ?d"
      using d ys by (auto simp: base64_pending_def min_def)
    ultimately show ?thesis using False xs k
      by (intro exI [of _ ?d] exI [of _ "take k (b64d_out d)"] exI [of _ None])
        (auto intro!: exI [of _ "drop k (b64d_out d) @ ys"])
  next
    case True
    define nn where "nn = (let nn = k div 3 * 4; nn = (if nn < 4 then 4 else nn) in if nn > 1024 then 1024 else nn)"
    have nn: "4 \<le> nn" "nn \<le> 1024" by (auto simp: nn_def Let_def)
    obtain r got e where rd: "io_ReadAtLeast rops (b64d_r d) (nn - b64d_nbuf d) (4 - b64d_nbuf d) = Some (r, got, e)"
        "rok r" "src (b64d_r d) = got @ src r" "length got \<le> nn - b64d_nbuf d"
        "e = None \<longrightarrow> 4 - b64d_nbuf d \<le> length got"
        "e \<noteq> None \<longrightarrow> src r = [] \<and> e = Some (if got = [] then EOF else ErrUnexpectedEOF)"
      using ReadAtLeast_source [OF d(3), of "4 - b64d_nbuf d" "nn - b64d_nbuf d"] diff_le_mono [OF nn(1)]
      by (elim meta_impE exE conjE) (auto intro: that)
    define d1 where "d1 = d\<lparr>b64d_r := r, b64d_err := e, b64d_buf := copy_at (b64d_buf d) (b64d_nbuf d) got,
        b64d_nbuf := b64d_nbuf d + length got\<rparr>"
    have d1: "take (b64d_nbuf d1) (b64d_buf d1) @ src (b64d_r d1) = base64_text a ys"
      using take_copy_at [of "b64d_nbuf d" got "b64d_buf d"] rd(3,4) nn d(4,6) ys by (simp add: d1_def)
    have buf: "b64d_buf d1 \<noteq> []" using d(4) by (auto simp: d1_def simp flip: length_0_conv)
    have read: "base64_Read rops d k =
        (if b64d_nbuf d1 < 4 then Some (Inr (d1, [], e)) else Some (base64_decode_chunk d1 k))"
    proof -
      have "(let nn = k div 3 * 4; nn = (if nn < 4 then 4 else nn);
          nn = (if nn > length (b64d_buf d) then length (b64d_buf d) else nn) in F nn) = F nn"
        for F :: "nat \<Rightarrow> ('a base64_decoder \<times> byte list \<times> os_error option) go option"
        by (simp add: nn_def Let_def d(4))
      note size = this
      show ?thesis using True d(1) rd(1) unfolding base64_Read_def size
        by (simp add: Let_def d1_def)
    qed
    show ?thesis
    proof (cases "b64d_nbuf d1 < 4")
      case short: True
      then have e: "src r = []" "e = Some (if got = [] then EOF else ErrUnexpectedEOF)"
        using rd(5,6) by (auto simp: d1_def)
      then have "base64_text a ys = take (b64d_nbuf d1) (b64d_buf d1)" using d1 by (simp add: d1_def)
      then have "ys = []" "b64d_nbuf d1 = 0"
        using short base64_text_short [of a ys] buf by auto
      then show ?thesis using read short e xs True by (simp add: d1_def)
    next
      case False
      let ?zs = "take (b64d_nbuf d1 div 4 * 3) ys"
      have "b64d_nbuf d1 \<le> 1024" using rd(4) nn d(6) by (simp add: d1_def)
      then obtain d2 where d2: "base64_decode_chunk d1 k = Inr (d2, take k ?zs, None)"
          "base64_pending rok src a (drop k ?zs @ drop (b64d_nbuf d1 div 4 * 3) ys) d2"
        using base64_decode_chunk_pending [OF a, of d1 rok src ys k] d True rd(2) d1 False by (auto simp: d1_def)
      have "ys \<noteq> []" using d1 False buf by auto
      then have "?zs \<noteq> []" using False by simp
      then have "take k ?zs \<noteq> []" using k by simp
      moreover have "ys = take k ?zs @ drop k ?zs @ drop (b64d_nbuf d1 div 4 * 3) ys"
        by (metis append_assoc append_take_drop_id)
      ultimately show ?thesis using read False d2 xs True \<open>ys \<noteq> []\<close>
        by (intro exI [of _ d2] exI [of _ "take k ?zs"] exI [of _ None]) auto
    qed
  qed
qed

lemma base64_Reads_pending:
  assumes a: "base64_alphabet a"
  shows "base64_pending rok src a xs d \<Longrightarrow> 0 \<notin> set ks \<Longrightarrow> length xs < length ks \<Longrightarrow>
    base64_Reads rops d ks = Some (Inr (xs, Some EOF))"
proof (induction ks arbitrary: d xs)
  case (Cons k ks)
  have "0 < k" using Cons.prems(2) by (cases k) auto
  then obtain d' bs e where rd: "base64_Read rops d k = Some (Inr (d', bs, e))"
      and res: "if xs = [] then bs = [] \<and> e = Some EOF
       else e = None \<and> bs \<noteq> [] \<and> (\<exists>ys. xs = bs @ ys \<and> base64_pending rok src a ys d')"
    using base64_Read_pending [OF a Cons.prems(1)] by blast
  show ?case
  proof (cases "xs = []")
    case True
    then show ?thesis using rd res by simp
  next
    case False
    then obtain ys where ys: "e = None" "bs \<noteq> []" "xs = bs @ ys" "base64_pending rok src a ys d'"
      using res unfolding if_not_P [OF False] by blast
    then have "length ys < length ks" using Cons.prems(3) by (cases bs) auto
    then have "base64_Reads rops d' ks = Some (Inr (ys, Some EOF))"
      using Cons.IH [OF ys(4)] Cons.prems(2) by simp
    then show ?thesis using rd ys by simp
  qed
qed simp

text \<open>A short read at the end of a padded quantum leaves the decoder ready for another text.\<close>

lemma base64_Read_message:
  assumes a: "base64_alphabet a" and r: "rok r" "src r = base64_text a [x] @ base64_text a s" and k: "0 < k" "k < 6"
  shows "\<exists>d. base64_Read rops (base64_NewDecoder (base64_NewEncoding a) r) k = Some (Inr (d, [x], None)) \<and>
    base64_pending rok src a s d"
proof -
  obtain r1 got e where rd: "io_ReadAtLeast rops r 4 4 = Some (r1, got, e)" "rok r1" "src r = got @ src r1"
      "length got \<le> 4" "e = None \<longrightarrow> 4 \<le> length got" "e \<noteq> None \<longrightarrow> src r1 = []"
    using ReadAtLeast_source [OF r(1), of 4 4] by auto
  have len: "length (base64_text a [x]) = 4" by simp
  then have "length got = 4"
    using rd(3-6) r(2) by (cases e) (auto dest: arg_cong [of _ _ length])
  then have got: "got = base64_text a [x]" and r1: "src r1 = base64_text a s"
    using rd(3) r(2) len by (metis append_eq_append_conv)+
  define d1 where "d1 = (base64_NewDecoder (base64_NewEncoding a) r)
      \<lparr>b64d_r := r1, b64d_err := e, b64d_buf := copy_at (replicate 1024 0) 0 got, b64d_nbuf := 4\<rparr>"
  have read: "base64_Read rops (base64_NewDecoder (base64_NewEncoding a) r) k = Some (base64_decode_chunk d1 k)"
  proof -
    have "k div 3 = 0 \<or> k div 3 = 1" using k by auto
    then show ?thesis using rd(1) \<open>length got = 4\<close>
      by (auto simp: base64_Read_def base64_NewDecoder_def d1_def Let_def)
  qed
  have "take 4 (copy_at (replicate 1024 0) 0 got) = got"
    using take_copy_at [of 0 got "replicate 1024 0"] \<open>length got = 4\<close> by simp
  then have "take (b64d_nbuf d1) (b64d_buf d1) = base64_text a [x]"
    using got by (simp add: d1_def del: base64_text.simps)
  then obtain d where d: "base64_decode_chunk d1 k = Inr (d, [x], None)"
      "base64_pending (\<lambda>r. r = r1) (\<lambda>_. []) a [] d"
    using base64_decode_chunk_pending [OF a, of d1 "\<lambda>r. r = r1" "\<lambda>_. []" "[x]" k] k(1)
    by (auto simp: d1_def base64_NewDecoder_def)
  then have "b64d_out d = []" "take (b64d_nbuf d) (b64d_buf d) = []" by (auto simp: base64_pending_def)
  then have "base64_pending rok src a s d" using d(2) r1 rd(2) by (auto simp: base64_pending_def)
  then show ?thesis using read d(1) by simp
qed

end

lemma base64_decodeMap_other:
  assumes "base64_pad \<notin> set a"
  shows "be_decodeMap (base64_NewEncoding a) ! unat base64_pad = 0xFF"
proof -
  have "foldl (\<lambda>m (i, c). m[unat c := of_nat i]) m (enumerate n a) ! unat base64_pad = (m ! unat base64_pad :: byte)"
    for m n
    using assms
  proof (induction a arbitrary: m n)
    case (Cons c a)
    then have "unat c \<noteq> unat base64_pad" using word_unat_eq_iff [of c base64_pad] by auto
    then show ?case using Cons by simp
  qed simp
  then show ?thesis by (simp add: base64_NewEncoding_def base64_pad_def)
qed

lemma base64_Decode_after_padding:
  assumes a: "base64_alphabet a" and s: "s \<noteq> []"
  shows "base64_Decode (base64_NewEncoding a) dst (base64_text a [x] @ base64_text a s) =
    Inr (dst, 0, Some (CorruptInputError 2))"
proof -
  let ?src = "base64_text a [x] @ base64_text a s" and ?ns = "[unat x div 4, unat x mod 4 * 16]"
  have len: "length ?src mod 4 = 0" "length ?src div 4 > 1"
    using base64_text_short [of a s] s by (auto simp: length_base64_text base64_EncodedLen_def not_less)
  have "base64_dbuf (base64_NewEncoding a) ?src 0 0 [] =
      base64_dbuf (base64_NewEncoding a) ?src 0 (length ?ns) (map of_nat ?ns)"
    using base64_digit_less(1) [of x] unat_byte_less [of x]
    by (intro base64_dbuf_digits [OF a]) (auto simp: less_Suc_eq)
  also have "\<dots> = Inl 2"
    using len(2) base64_decodeMap_other [of a] a
    by (subst base64_dbuf.simps) (auto simp: base64_alphabet_def numeral_2_eq_2)
  finally show ?thesis using len
    by (simp add: base64_Decode_def base64_decode_def base64_decode_loop.simps [of _ _ _ 0])
qed

subsection \<open>Properties\<close>

text \<open>
  C29: a stream decoder over a \<^verbatim>\<open>Buffer\<close> that holds the text of \<open>s\<close> delivers \<open>s\<close> and then \<^verbatim>\<open>os.EOF\<close>, for any
  lengths of the slices given to \<^verbatim>\<open>Read\<close>, as long as none is empty: no call panics or fails to return,
  none loses a byte that is left over from the one before, and each before the last delivers at
  least one byte.
\<close>

theorem base64_stream_decoder:
  assumes "base64_alphabet a" and "buffer_ok r" and "buffer_Bytes r = base64_text a s"
    and "0 \<notin> set ks" and "length s < length ks"
  shows "base64_Reads buffer_reader (base64_NewDecoder (base64_NewEncoding a) r) ks = Some (Inr (s, Some EOF))"
proof (rule buf_source.base64_Reads_pending [OF assms(1) _ assms(4,5)])
  show "base64_pending buffer_ok buffer_Bytes a s (base64_NewDecoder (base64_NewEncoding a) r)"
    using assms(2,3) by (simp add: base64_pending_def base64_NewDecoder_def)
qed

theorem base64_stream_decoder_witness:
  "base64_Reads buffer_reader
     (base64_NewDecoder base64_StdEncoding (buffer_NewBufferString (bytes_of ''Zm9vYg=='')))
     [1, 2, 3, 4, 5] = Some (Inr ([0x66, 0x6F, 0x6F, 0x62], Some EOF))"
proof -
  have "base64_text encodeStd [0x66, 0x6F, 0x6F, 0x62] = bytes_of ''Zm9vYg==''" by code_simp
  then show ?thesis
    using base64_stream_decoder [OF base64_alphabets(1), of "buffer_NewBufferString (bytes_of ''Zm9vYg=='')"
        "[0x66, 0x6F, 0x6F, 0x62]" "[1, 2, 3, 4, 5]"] buffer_NewBufferString_ok [of "bytes_of ''Zm9vYg==''"]
    by (simp add: base64_StdEncoding_def)
qed

text \<open>
  C30: data after the padding is an error for \<^verbatim>\<open>Decode\<close>, and the comment of \<^verbatim>\<open>decode\<close> calls it one; the
  stream decoder records the end of the message in \<^verbatim>\<open>d.end\<close> and never looks at it. It decodes the
  text that follows as another message, when its reads are short.
\<close>

theorem base64_decoder_ignores_end:
  assumes "base64_alphabet a" and "buffer_ok r" and "buffer_Bytes r = base64_text a [x] @ base64_text a s" and "s \<noteq> []"
    and "0 < k" and "k < 6" and "0 \<notin> set ks" and "length s < length ks"
  shows "base64_Reads buffer_reader (base64_NewDecoder (base64_NewEncoding a) r) (k # ks) =
      Some (Inr (x # s, Some EOF)) \<and>
    base64_Decode (base64_NewEncoding a) dst (buffer_Bytes r) = Inr (dst, 0, Some (CorruptInputError 2))"
proof -
  obtain d where "base64_Read buffer_reader (base64_NewDecoder (base64_NewEncoding a) r) k = Some (Inr (d, [x], None))"
      "base64_pending buffer_ok buffer_Bytes a s d"
    using buf_source.base64_Read_message [OF assms(1-3,5,6)] by blast
  then show ?thesis
    using buf_source.base64_Reads_pending [OF assms(1) _ assms(7,8)] base64_Decode_after_padding [OF assms(1,4), of dst x]
      assms(3) by simp
qed

theorem base64_decoder_ignores_end_witness:
  "base64_Reads buffer_reader
     (base64_NewDecoder base64_StdEncoding (buffer_NewBufferString (bytes_of ''Zg==Zm8='')))
     [1, 1, 1, 1] = Some (Inr ([0x66, 0x66, 0x6F], Some EOF))"
proof -
  have "base64_text encodeStd [0x66] @ base64_text encodeStd [0x66, 0x6F] = bytes_of ''Zg==Zm8=''" by code_simp
  then show ?thesis
    using base64_decoder_ignores_end [OF base64_alphabets(1), of "buffer_NewBufferString (bytes_of ''Zg==Zm8='')"
        "0x66" "[0x66, 0x6F]" 1 "[1, 1, 1]" "[]"] buffer_NewBufferString_ok [of "bytes_of ''Zg==Zm8=''"]
    by (simp add: base64_StdEncoding_def)
qed

end
