(* ===== verification/Block_Cipher.thy ===== *)
theory Block_Cipher
  imports Go_Prelude
begin

text \<open>
  The interface \<^verbatim>\<open>Cipher\<close> of \<^verbatim>\<open>crypto/block/cipher.go\<close>: a key schedule together with its method
  table \<open>cipher_ops\<close>. \<^verbatim>\<open>Encrypt\<close> and \<^verbatim>\<open>Decrypt\<close> store one block at the start of \<^verbatim>\<open>dst\<close> and panic if
  \<^verbatim>\<open>src\<close> or \<^verbatim>\<open>dst\<close> is shorter than a block. The locale \<open>block_cipher\<close> states the contract on which
  the modes rely: for a key, the two are inverse permutations of the blocks. The ciphers of the
  library interpret it.
\<close>

record 'c cipher_ops =
  cipher_BlockSize :: "'c \<Rightarrow> nat"
  cipher_Encrypt :: "'c \<Rightarrow> byte list \<Rightarrow> byte list \<Rightarrow> byte list go"
  cipher_Decrypt :: "'c \<Rightarrow> byte list \<Rightarrow> byte list \<Rightarrow> byte list go"

text \<open>\<^verbatim>\<open>dst[0], ... = q[0], ...\<close> of a block that was computed from \<^verbatim>\<open>src[0:n]\<close>.\<close>

definition cipher_store :: "nat \<Rightarrow> (byte list \<Rightarrow> byte list) \<Rightarrow> byte list \<Rightarrow> byte list \<Rightarrow> byte list go" where
  "cipher_store n f src dst =
     (if n \<le> length src \<and> n \<le> length dst then Inr (copy_at dst 0 (f (take n src)))
      else Inl (Panic ''index out of range''))"

text \<open>
  What a caller may rely on for a key: \<open>Encrypt\<close> and \<open>Decrypt\<close> change the first \<open>n\<close> bytes of \<open>dst\<close>
  only and undo each other in either order, and a short \<open>src\<close> or \<open>dst\<close> panics.
\<close>

definition cipher_undoes :: "nat \<Rightarrow> (byte list \<Rightarrow> byte list \<Rightarrow> byte list go) \<Rightarrow>
    (byte list \<Rightarrow> byte list \<Rightarrow> byte list go) \<Rightarrow> bool" where
  "cipher_undoes n f g \<longleftrightarrow> (\<forall>src dst dst'.
     (if n \<le> length src \<and> n \<le> length dst then
        (\<exists>q. length q = n \<and> f src dst = Inr (q @ drop n dst) \<and>
           (n \<le> length dst' \<longrightarrow> g q dst' = Inr (take n src @ drop n dst')))
      else f src dst = Inl (Panic ''index out of range'')))"

definition cipher_inverse :: "'c cipher_ops \<Rightarrow> 'c \<Rightarrow> nat \<Rightarrow> bool" where
  "cipher_inverse ops c n \<longleftrightarrow> cipher_BlockSize ops c = n \<and>
     cipher_undoes n (cipher_Encrypt ops c) (cipher_Decrypt ops c) \<and>
     cipher_undoes n (cipher_Decrypt ops c) (cipher_Encrypt ops c)"

locale block_cipher =
  fixes ops :: "'c cipher_ops"
    and ok :: "'c \<Rightarrow> bool"
    and bs :: nat
    and E :: "'c \<Rightarrow> byte list \<Rightarrow> byte list"
    and D :: "'c \<Rightarrow> byte list \<Rightarrow> byte list"
  assumes bs_pos: "0 < bs"
    and BlockSize_bs: "ok c \<Longrightarrow> cipher_BlockSize ops c = bs"
    and Encrypt_store: "ok c \<Longrightarrow> cipher_Encrypt ops c = cipher_store bs (E c)"
    and Decrypt_store: "ok c \<Longrightarrow> cipher_Decrypt ops c = cipher_store bs (D c)"
    and length_E: "ok c \<Longrightarrow> length b = bs \<Longrightarrow> length (E c b) = bs"
    and length_D: "ok c \<Longrightarrow> length b = bs \<Longrightarrow> length (D c b) = bs"
    and D_E: "ok c \<Longrightarrow> length b = bs \<Longrightarrow> D c (E c b) = b"
begin

text \<open>There are finitely many blocks, so that an inverse on one side is one on the other.\<close>

lemma E_D: assumes "ok c" and "length b = bs" shows "E c (D c b) = b"
proof -
  let ?B = "{b :: byte list. length b = bs}"
  have "finite ?B" using finite_lists_length_eq [of "UNIV :: byte set" bs] by simp
  moreover have "E c ` ?B \<subseteq> ?B" using length_E assms(1) by auto
  moreover have "inj_on (E c) ?B" by (rule inj_on_inverseI [of _ "D c"]) (simp add: D_E assms(1))
  ultimately have "E c ` ?B = ?B" by (rule endo_inj_surj)
  then obtain a where "length a = bs" "b = E c a" using assms(2) by (metis (mono_tags, lifting) imageE mem_Collect_eq)
  then show ?thesis using D_E assms(1) by simp
qed

lemma Encrypt_eq:
  "ok c \<Longrightarrow> bs \<le> length src \<Longrightarrow> bs \<le> length dst \<Longrightarrow>
   cipher_Encrypt ops c src dst = Inr (E c (take bs src) @ drop bs dst)"
  by (simp add: Encrypt_store cipher_store_def copy_at_eq length_E)

lemma Decrypt_eq:
  "ok c \<Longrightarrow> bs \<le> length src \<Longrightarrow> bs \<le> length dst \<Longrightarrow>
   cipher_Decrypt ops c src dst = Inr (D c (take bs src) @ drop bs dst)"
  by (simp add: Decrypt_store cipher_store_def copy_at_eq length_D)

text \<open>What a caller of \<^verbatim>\<open>Encrypt\<close> and \<^verbatim>\<open>Decrypt\<close> sees, in either order.\<close>

lemma Decrypt_Encrypt: "ok c \<Longrightarrow> cipher_undoes bs (cipher_Encrypt ops c) (cipher_Decrypt ops c)"
  unfolding cipher_undoes_def
  by (intro allI, rename_tac src dst dst', case_tac "bs \<le> length src \<and> bs \<le> length dst")
    (auto simp: Encrypt_eq Decrypt_eq length_E D_E, auto simp: Encrypt_store cipher_store_def)

lemma Encrypt_Decrypt: "ok c \<Longrightarrow> cipher_undoes bs (cipher_Decrypt ops c) (cipher_Encrypt ops c)"
  unfolding cipher_undoes_def
  by (intro allI, rename_tac src dst dst', case_tac "bs \<le> length src \<and> bs \<le> length dst")
    (auto simp: Encrypt_eq Decrypt_eq length_D E_D, auto simp: Decrypt_store cipher_store_def)

lemma inverse: "ok c \<Longrightarrow> cipher_inverse ops c bs"
  by (simp add: cipher_inverse_def BlockSize_bs Decrypt_Encrypt Encrypt_Decrypt)

end

text \<open>Rounds undone one by one in the opposite order.\<close>

lemma fold_rev_inverse: "(\<And>i x. f i (g i x) = x) \<Longrightarrow> fold f (rev is) (fold g is x) = x"
  by (induction "is" arbitrary: x) simp_all

subsection \<open>Words in a block, high byte first\<close>

definition be32 :: "byte list \<Rightarrow> nat \<Rightarrow> uint32" where
  "be32 src i = push_bit 24 (ucast (src ! i)) OR push_bit 16 (ucast (src ! (i + 1))) OR
     push_bit 8 (ucast (src ! (i + 2))) OR ucast (src ! (i + 3))"

lemma no_bit_byte: "8 \<le> n \<Longrightarrow> \<not> bit (w :: byte) n"
  using bit_imp_le_length [of w n] by auto

lemma be_bytes_4: "be_bytes 4 w = [byte_at 24 w, byte_at 16 w, byte_at 8 w, byte_at 0 w]"
proof -
  have "[0..<4] = [0, 1, 2, 3 :: nat]" by (simp add: upt_rec)
  then show ?thesis by (simp add: be_bytes_def)
qed

lemma be32_bytes: "be32 [byte_at 24 w, byte_at 16 w, byte_at 8 w, byte_at 0 w] 0 = w"
proof (rule bit_word_eqI)
  fix n assume "n < LENGTH(32)"
  then consider "n < 8" | "8 \<le> n" "n < 16" | "16 \<le> n" "n < 24" | "24 \<le> n" "n < 32" by fastforce
  then show "bit (be32 [byte_at 24 w, byte_at 16 w, byte_at 8 w, byte_at 0 w] 0) n = bit w n"
    by cases (simp_all add: be32_def byte_at_def bit_simps less_diff_conv2)
qed

lemma bytes_be32:
  "byte_at 24 (be32 src i) = src ! i" "byte_at 16 (be32 src i) = src ! (i + 1)"
  "byte_at 8 (be32 src i) = src ! (i + 2)" "byte_at 0 (be32 src i) = src ! (i + 3)"
  by (rule bit_word_eqI; simp add: be32_def byte_at_def bit_simps no_bit_byte)+

lemma list8_nth: "length b = 8 \<Longrightarrow> [b ! 0, b ! 1, b ! 2, b ! 3, b ! 4, b ! 5, b ! 6, b ! 7] = b"
proof -
  have "[0..<8] = [0, 1, 2, 3, 4, 5, 6, 7 :: nat]" by (simp add: upt_rec)
  then show "length b = 8 \<Longrightarrow> ?thesis" using map_nth [of b] by simp
qed

lemma be32_front: "be32 (byte_at 24 w # byte_at 16 w # byte_at 8 w # byte_at 0 w # s) 0 = w"
  using be32_bytes [of w] by (simp add: be32_def)

lemma be32_second: "be32 (a # b # c # d # byte_at 24 w # byte_at 16 w # byte_at 8 w # byte_at 0 w # s) 4 = w"
  using be32_bytes [of w] by (simp add: be32_def)

end
