(* ===== verification/Aes.thy ===== *)
theory Aes
  imports Aes_Tables
begin

text \<open>
  Package \<^verbatim>\<open>crypto/aes\<close>. The four words \<^verbatim>\<open>s0\<close> to \<^verbatim>\<open>s3\<close> of a block are a tuple. The middle rounds look up
  the tables, which is SubBytes, ShiftRows and MixColumns in one; decryption uses a key schedule of
  its own, to which the inverse of MixColumns has been applied. \<^verbatim>\<open>Decrypt\<close> is shown to invert
  \<^verbatim>\<open>Encrypt\<close> for every key.
\<close>

subsection \<open>The code\<close>

definition aes_BlockSize :: nat where "aes_BlockSize = 16"

type_synonym aes_state = "uint32 \<times> uint32 \<times> uint32 \<times> uint32"

definition aes_load :: "byte list \<Rightarrow> aes_state" where
  "aes_load src = (be32 src 0, be32 src 4, be32 src 8, be32 src 12)"

definition aes_store :: "aes_state \<Rightarrow> byte list" where
  "aes_store s = (case s of (s0, s1, s2, s3) \<Rightarrow>
     [byte_at 24 s0, byte_at 16 s0, byte_at 8 s0, byte_at 0 s0,
      byte_at 24 s1, byte_at 16 s1, byte_at 8 s1, byte_at 0 s1,
      byte_at 24 s2, byte_at 16 s2, byte_at 8 s2, byte_at 0 s2,
      byte_at 24 s3, byte_at 16 s3, byte_at 8 s3, byte_at 0 s3])"

text \<open>\<^verbatim>\<open>s0 ^= xk[k+0]\<close> and so on.\<close>

definition aes_addkey :: "uint32 list \<Rightarrow> nat \<Rightarrow> aes_state \<Rightarrow> aes_state" where
  "aes_addkey xk k s = (case s of (s0, s1, s2, s3) \<Rightarrow>
     (s0 XOR xk ! k, s1 XOR xk ! (k + 1), s2 XOR xk ! (k + 2), s3 XOR xk ! (k + 3)))"

text \<open>\<^verbatim>\<open>x ^ t[0][a>>24] ^ t[1][b>>16&0xff] ^ t[2][c>>8&0xff] ^ t[3][d&0xff]\<close>\<close>

definition aes_lookup :: "uint32 list list \<Rightarrow> uint32 \<Rightarrow> uint32 \<Rightarrow> uint32 \<Rightarrow> uint32 \<Rightarrow> uint32 \<Rightarrow> uint32" where
  "aes_lookup t x a b c d =
     x XOR t ! 0 ! unat (drop_bit 24 a) XOR t ! 1 ! unat (drop_bit 16 b AND 0xff) XOR
     t ! 2 ! unat (drop_bit 8 c AND 0xff) XOR t ! 3 ! unat (d AND 0xff)"

text \<open>\<^verbatim>\<open>uint32(box[a>>24])<<24 | uint32(box[b>>16&0xff])<<16 | uint32(box[c>>8&0xff])<<8 | uint32(box[d&0xff])\<close>\<close>

definition aes_box :: "byte list \<Rightarrow> uint32 \<Rightarrow> uint32 \<Rightarrow> uint32 \<Rightarrow> uint32 \<Rightarrow> uint32" where
  "aes_box box a b c d =
     push_bit 24 (ucast (box ! unat (drop_bit 24 a))) OR push_bit 16 (ucast (box ! unat (drop_bit 16 b AND 0xff))) OR
     push_bit 8 (ucast (box ! unat (drop_bit 8 c AND 0xff))) OR ucast (box ! unat (d AND 0xff))"

definition aes_encrypt_round :: "uint32 list \<Rightarrow> nat \<Rightarrow> aes_state \<Rightarrow> aes_state" where
  "aes_encrypt_round xk k s = (case s of (s0, s1, s2, s3) \<Rightarrow>
     (aes_lookup aes_te (xk ! k) s0 s1 s2 s3, aes_lookup aes_te (xk ! (k + 1)) s1 s2 s3 s0,
      aes_lookup aes_te (xk ! (k + 2)) s2 s3 s0 s1, aes_lookup aes_te (xk ! (k + 3)) s3 s0 s1 s2))"

definition aes_decrypt_round :: "uint32 list \<Rightarrow> nat \<Rightarrow> aes_state \<Rightarrow> aes_state" where
  "aes_decrypt_round xk k s = (case s of (s0, s1, s2, s3) \<Rightarrow>
     (aes_lookup aes_td (xk ! k) s0 s3 s2 s1, aes_lookup aes_td (xk ! (k + 1)) s1 s0 s3 s2,
      aes_lookup aes_td (xk ! (k + 2)) s2 s1 s0 s3, aes_lookup aes_td (xk ! (k + 3)) s3 s2 s1 s0))"

text \<open>
  The loop of the middle rounds, \<open>r\<close> of which are left: \<open>t\<close> holds the variables \<^verbatim>\<open>t0\<close> to \<^verbatim>\<open>t3\<close>, zero
  before the first round. It returns \<open>t\<close> and \<open>k\<close>.
\<close>

fun aes_rounds ::
    "(uint32 list \<Rightarrow> nat \<Rightarrow> aes_state \<Rightarrow> aes_state) \<Rightarrow> uint32 list \<Rightarrow> nat \<Rightarrow> nat \<Rightarrow> aes_state \<Rightarrow> aes_state \<Rightarrow>
     aes_state \<times> nat" where
  "aes_rounds f xk 0 k s t = (t, k)"
| "aes_rounds f xk (Suc r) k s t = (let t = f xk k s in aes_rounds f xk r (k + 4) t t)"

definition aes_encryptBlock :: "uint32 list \<Rightarrow> byte list \<Rightarrow> byte list" where
  "aes_encryptBlock xk src =
     (let s = aes_addkey xk 0 (aes_load src);
          nr = length xk div 4 - 2;
          ((t0, t1, t2, t3), k) = aes_rounds aes_encrypt_round xk nr 4 s (0, 0, 0, 0)
      in aes_store (aes_addkey xk k
           (aes_box aes_sbox0 t0 t1 t2 t3, aes_box aes_sbox0 t1 t2 t3 t0,
            aes_box aes_sbox0 t2 t3 t0 t1, aes_box aes_sbox0 t3 t0 t1 t2)))"

definition aes_decryptBlock :: "uint32 list \<Rightarrow> byte list \<Rightarrow> byte list" where
  "aes_decryptBlock xk src =
     (let s = aes_addkey xk 0 (aes_load src);
          nr = length xk div 4 - 2;
          ((t0, t1, t2, t3), k) = aes_rounds aes_decrypt_round xk nr 4 s (0, 0, 0, 0)
      in aes_store (aes_addkey xk k
           (aes_box aes_sbox1 t0 t3 t2 t1, aes_box aes_sbox1 t1 t0 t3 t2,
            aes_box aes_sbox1 t2 t1 t0 t3, aes_box aes_sbox1 t3 t2 t1 t0)))"

definition aes_subw :: "uint32 \<Rightarrow> uint32" where
  "aes_subw w =
     push_bit 24 (ucast (aes_sbox0 ! unat (drop_bit 24 w))) OR push_bit 16 (ucast (aes_sbox0 ! unat (drop_bit 16 w AND 0xff))) OR
     push_bit 8 (ucast (aes_sbox0 ! unat (drop_bit 8 w AND 0xff))) OR ucast (aes_sbox0 ! unat (w AND 0xff))"

definition aes_rotw :: "uint32 \<Rightarrow> uint32" where
  "aes_rotw w = push_bit 8 w OR drop_bit 24 w"

text \<open>The second loop of \<^verbatim>\<open>expandKey\<close>: the word \<open>i\<close> of \<^verbatim>\<open>enc\<close>.\<close>

definition aes_expand_word :: "nat \<Rightarrow> nat \<Rightarrow> uint32 list \<Rightarrow> uint32 list" where
  "aes_expand_word nk i enc =
     (let t = enc ! (i - 1);
          t = (if i mod nk = 0 then aes_subw (aes_rotw t) XOR push_bit 24 (ucast (aes_powx ! (i div nk - 1)))
               else if nk > 6 \<and> i mod nk = 4 then aes_subw t
               else t)
      in enc[i := enc ! (i - nk) XOR t])"

definition aes_expand_enc :: "byte list \<Rightarrow> nat \<Rightarrow> uint32 list" where
  "aes_expand_enc key n =
     (let nk = length key div 4
      in fold (aes_expand_word nk) [nk..<n]
           (map (\<lambda>i. be32 key (4 * i)) [0..<nk] @ replicate (n - nk) 0))"

text \<open>The last loops of \<^verbatim>\<open>expandKey\<close>: the word \<open>m = i + j\<close> of \<^verbatim>\<open>dec\<close>.\<close>

definition aes_dec_word :: "uint32 list \<Rightarrow> nat \<Rightarrow> uint32" where
  "aes_dec_word enc m =
     (let n = length enc; i = m div 4 * 4; j = m mod 4; ei = n - i - 4; x = enc ! (ei + j)
      in if i > 0 \<and> i + 4 < n then
           aes_td ! 0 ! unat (aes_sbox0 ! unat (drop_bit 24 x)) XOR
           aes_td ! 1 ! unat (aes_sbox0 ! unat (drop_bit 16 x AND 0xff)) XOR
           aes_td ! 2 ! unat (aes_sbox0 ! unat (drop_bit 8 x AND 0xff)) XOR
           aes_td ! 3 ! unat (aes_sbox0 ! unat (x AND 0xff))
         else x)"

definition aes_expand_dec :: "uint32 list \<Rightarrow> uint32 list" where
  "aes_expand_dec enc = map (aes_dec_word enc) [0..<length enc]"

record aes_Cipher =
  aes_enc :: "uint32 list"
  aes_dec :: "uint32 list"

text \<open>\<^verbatim>\<open>NewCipher\<close>: the error is a \<^verbatim>\<open>KeySizeError\<close> with the size.\<close>

definition aes_NewCipher :: "byte list \<Rightarrow> nat + aes_Cipher" where
  "aes_NewCipher key =
     (let k = length key
      in if k = 16 \<or> k = 24 \<or> k = 32 then
           (let enc = aes_expand_enc key (k + 28) in Inr \<lparr>aes_enc = enc, aes_dec = aes_expand_dec enc\<rparr>)
         else Inl k)"

text \<open>An expanded key of fewer than eight words, as in the zero \<^verbatim>\<open>Cipher\<close>, is indexed out of range.\<close>

definition aes_Encrypt :: "aes_Cipher \<Rightarrow> byte list \<Rightarrow> byte list \<Rightarrow> byte list go" where
  "aes_Encrypt c src dst =
     (if length (aes_enc c) < 8 then Inl (Panic ''index out of range'')
      else cipher_store 16 (aes_encryptBlock (aes_enc c)) src dst)"

definition aes_Decrypt :: "aes_Cipher \<Rightarrow> byte list \<Rightarrow> byte list \<Rightarrow> byte list go" where
  "aes_Decrypt c src dst =
     (if length (aes_dec c) < 8 then Inl (Panic ''index out of range'')
      else cipher_store 16 (aes_decryptBlock (aes_dec c)) src dst)"

definition aes_Reset :: "aes_Cipher \<Rightarrow> aes_Cipher" where
  "aes_Reset c = \<lparr>aes_enc = replicate (length (aes_enc c)) 0, aes_dec = replicate (length (aes_dec c)) 0\<rparr>"

definition aes_ops :: "aes_Cipher cipher_ops" where
  "aes_ops = \<lparr>cipher_BlockSize = \<lambda>c. aes_BlockSize, cipher_Encrypt = aes_Encrypt, cipher_Decrypt = aes_Decrypt\<rparr>"

subsection \<open>The rounds in the terms of FIPS 197\<close>

lemma index_byte:
  "unat (drop_bit 24 (w :: uint32)) = unat (byte_at 24 w)" "unat (drop_bit 16 w AND 0xff) = unat (byte_at 16 w)"
  "unat (drop_bit 8 w AND 0xff) = unat (byte_at 8 w)" "unat (w AND 0xff) = unat (byte_at 0 w)"
proof -
  have mask: "v AND 0xff = take_bit 8 v" for v :: uint32 by (simp add: take_bit_eq_mask mask_eq_exp_minus_1)
  have ucast: "unat (ucast v :: byte) = unat (take_bit 8 v)" for v :: uint32
    by (simp add: unsigned_ucast_eq unsigned_take_bit_eq)
  have "take_bit 8 (drop_bit 24 w) = drop_bit 24 w" by (rule bit_word_eqI) (auto simp: bit_simps dest: bit_imp_le_length)
  then show "unat (drop_bit 24 w) = unat (byte_at 24 w)" by (simp add: byte_at_def ucast)
  show "unat (drop_bit 16 w AND 0xff) = unat (byte_at 16 w)" "unat (drop_bit 8 w AND 0xff) = unat (byte_at 8 w)"
      "unat (w AND 0xff) = unat (byte_at 0 w)"
    by (simp_all only: mask byte_at_def ucast drop_bit_0 id_apply)
qed

lemma byte_at_drop: "byte_at 0 (drop_bit k w) = byte_at k w"
  by (simp add: byte_at_def)

lemmas index_bytes = index_byte byte_at_drop

text \<open>SubBytes and ShiftRows, and their inverse; a column of the result in terms of four columns.\<close>

definition aes_sub :: "(byte \<Rightarrow> byte) \<Rightarrow> uint32 \<Rightarrow> uint32 \<Rightarrow> uint32 \<Rightarrow> uint32 \<Rightarrow> uint32" where
  "aes_sub S a b c d = aes_word (S (byte_at 24 a)) (S (byte_at 16 b)) (S (byte_at 8 c)) (S (byte_at 0 d))"

definition aes_subshift :: "aes_state \<Rightarrow> aes_state" where
  "aes_subshift s = (case s of (s0, s1, s2, s3) \<Rightarrow>
     (aes_sub aes_S s0 s1 s2 s3, aes_sub aes_S s1 s2 s3 s0, aes_sub aes_S s2 s3 s0 s1, aes_sub aes_S s3 s0 s1 s2))"

definition aes_unsubshift :: "aes_state \<Rightarrow> aes_state" where
  "aes_unsubshift s = (case s of (s0, s1, s2, s3) \<Rightarrow>
     (aes_sub aes_IS s0 s3 s2 s1, aes_sub aes_IS s1 s0 s3 s2, aes_sub aes_IS s2 s1 s0 s3, aes_sub aes_IS s3 s2 s1 s0))"

definition aes_map :: "(uint32 \<Rightarrow> uint32) \<Rightarrow> aes_state \<Rightarrow> aes_state" where
  "aes_map f s = (case s of (s0, s1, s2, s3) \<Rightarrow> (f s0, f s1, f s2, f s3))"

lemma aes_unsubshift_subshift: "aes_unsubshift (aes_subshift s) = s"
  by (cases s) (simp add: aes_unsubshift_def aes_subshift_def aes_sub_def byte_at_aes_word aes_IS_S aes_word_bytes)

lemma aes_box_sub: "aes_box aes_sbox0 a b c d = aes_sub aes_S a b c d" "aes_box aes_sbox1 a b c d = aes_sub aes_IS a b c d"
  by (simp_all add: aes_box_def aes_sub_def index_bytes aes_S_def aes_IS_def aes_word_def be32_def)

lemma aes_lookup_te: "aes_lookup aes_te x a b c d = x XOR aes_mix (aes_sub aes_S a b c d)"
  unfolding aes_lookup_def index_bytes aes_te_nth aes_mix_def aes_sub_def Let_def byte_at_aes_word xor.assoc aes_word_xor
  by (simp only: ac_simps)

lemma aes_lookup_td: "aes_lookup aes_td x a b c d = x XOR aes_unmix (aes_sub aes_IS a b c d)"
  unfolding aes_lookup_def index_bytes aes_td_nth aes_unmix_def aes_sub_def Let_def byte_at_aes_word xor.assoc aes_word_xor
  by (simp only: ac_simps)

text \<open>A round of FIPS 197, and one of its equivalent inverse cipher.\<close>

lemma aes_encrypt_round_eq: "aes_encrypt_round xk k s = aes_addkey xk k (aes_map aes_mix (aes_subshift s))"
  by (cases s) (simp add: aes_encrypt_round_def aes_addkey_def aes_map_def aes_subshift_def aes_lookup_te xor.commute)

lemma aes_decrypt_round_eq: "aes_decrypt_round xk k s = aes_addkey xk k (aes_map aes_unmix (aes_unsubshift s))"
  by (cases s) (simp add: aes_decrypt_round_def aes_addkey_def aes_map_def aes_unsubshift_def aes_lookup_td xor.commute)

lemma aes_encryptBlock_eq:
  "aes_encryptBlock xk src =
     (let (t, k) = aes_rounds aes_encrypt_round xk (length xk div 4 - 2) 4 (aes_addkey xk 0 (aes_load src)) (0, 0, 0, 0)
      in aes_store (aes_addkey xk k (aes_subshift t)))"
  by (simp add: aes_encryptBlock_def Let_def aes_subshift_def aes_box_sub split: prod.splits)

lemma aes_decryptBlock_eq:
  "aes_decryptBlock xk src =
     (let (t, k) = aes_rounds aes_decrypt_round xk (length xk div 4 - 2) 4 (aes_addkey xk 0 (aes_load src)) (0, 0, 0, 0)
      in aes_store (aes_addkey xk k (aes_unsubshift t)))"
  by (simp add: aes_decryptBlock_def Let_def aes_unsubshift_def aes_box_sub split: prod.splits)

lemma aes_load_store: "aes_load (aes_store s) = s"
  by (cases s) (simp add: aes_load_def aes_store_def be32_def aes_word_bytes [unfolded aes_word_def be32_def, simplified])

lemma aes_store_load: "length b = 16 \<Longrightarrow> aes_store (aes_load b) = b"
proof -
  have "[0..<16] = [0, 1, 2, 3, 4, 5, 6, 7, 8, 9, 10, 11, 12, 13, 14, 15 :: nat]" by (simp add: upt_rec)
  then show "length b = 16 \<Longrightarrow> ?thesis"
    using map_nth [of b] bytes_be32 [of b 0] bytes_be32 [of b 4] bytes_be32 [of b 8] bytes_be32 [of b 12]
    by (simp add: aes_store_def aes_load_def numeral_2_eq_2)
qed

lemma length_aes_store: "length (aes_store s) = 16"
  by (cases s) (simp add: aes_store_def)

subsection \<open>Decryption undoes encryption\<close>

text \<open>The state after \<open>r\<close> middle rounds of encryption.\<close>

fun aes_trace :: "uint32 list \<Rightarrow> aes_state \<Rightarrow> nat \<Rightarrow> aes_state" where
  "aes_trace xk s 0 = s"
| "aes_trace xk s (Suc r) = aes_encrypt_round xk (4 * Suc r) (aes_trace xk s r)"

lemma aes_rounds_trace:
  "aes_rounds aes_encrypt_round xk r (4 * Suc m) (aes_trace xk s m) (aes_trace xk s m) =
     (aes_trace xk s (m + r), 4 * Suc (m + r))"
proof (induction r arbitrary: m)
  case (Suc r)
  then show ?case using Suc [of "Suc m"] by (simp add: Let_def add.commute)
qed simp

lemma aes_addkey_cancel: "aes_addkey xk k (aes_addkey xk k s) = s"
  by (cases s) (simp add: aes_addkey_def xor.assoc)

text \<open>The relation of the two key schedules: the words from \<open>4 * i\<close> on of one are made from those of the other.\<close>

definition aes_inverse_keys :: "uint32 list \<Rightarrow> uint32 list \<Rightarrow> bool" where
  "aes_inverse_keys enc dec \<longleftrightarrow>
     length dec = length enc \<and> length enc mod 4 = 0 \<and> 8 < length enc \<and>
     aes_addkey dec 0 = aes_addkey enc (length enc - 4) \<and> aes_addkey dec (length enc - 4) = aes_addkey enc 0 \<and>
     (\<forall>i. 0 < i \<longrightarrow> 4 * i + 4 < length enc \<longrightarrow>
          aes_addkey dec (4 * i) \<circ> aes_map aes_unmix = aes_map aes_unmix \<circ> aes_addkey enc (length enc - 4 - 4 * i))"

lemma aes_map_unmix_mix: "aes_map aes_unmix (aes_map aes_mix s) = s"
  by (cases s) (simp add: aes_map_def aes_unmix_mix)

lemma aes_decrypt_step:
  assumes "aes_inverse_keys enc dec" and "0 < i" and "4 * i + 4 < length enc" and "4 * Suc r = length enc - 4 - 4 * i"
  shows "aes_decrypt_round dec (4 * i) (aes_subshift (aes_trace enc s (Suc r))) = aes_subshift (aes_trace enc s r)"
proof -
  have "aes_addkey dec (4 * i) (aes_map aes_unmix u) = aes_map aes_unmix (aes_addkey enc (4 * Suc r) u)" for u
  proof -
    have "aes_addkey dec (4 * i) \<circ> aes_map aes_unmix = aes_map aes_unmix \<circ> aes_addkey enc (length enc - 4 - 4 * i)"
      using assms(1-3) unfolding aes_inverse_keys_def by blast
    from fun_cong [OF this, of u] show ?thesis by (simp only: o_apply assms(4))
  qed
  then show ?thesis
    by (simp add: aes_decrypt_round_eq aes_encrypt_round_eq aes_unsubshift_subshift aes_addkey_cancel
        aes_map_unmix_mix del: mult_Suc_right)
qed

lemma aes_rounds_undo:
  assumes "aes_inverse_keys enc dec"
  shows "0 < i \<Longrightarrow> 4 * i + 4 * r + 4 = length enc \<Longrightarrow>
    aes_rounds aes_decrypt_round dec r (4 * i) (aes_subshift (aes_trace enc s r)) (aes_subshift (aes_trace enc s r)) =
      (aes_subshift s, length enc - 4)"
proof (induction r arbitrary: i)
  case (Suc r)
  have step: "aes_decrypt_round dec (4 * i) (aes_subshift (aes_trace enc s (Suc r))) = aes_subshift (aes_trace enc s r)"
  proof (rule aes_decrypt_step [OF assms Suc.prems(1)])
    show "4 * i + 4 < length enc" "4 * Suc r = length enc - 4 - 4 * i" by (simp_all flip: Suc.prems(2))
  qed
  have "aes_rounds aes_decrypt_round dec r (4 * Suc i) (aes_subshift (aes_trace enc s r)) (aes_subshift (aes_trace enc s r)) =
      (aes_subshift s, length enc - 4)"
    by (rule Suc.IH) (simp_all flip: Suc.prems(2))
  moreover have "4 * i + 4 = 4 * Suc i" by simp
  ultimately show ?case by (simp only: aes_rounds.simps Let_def step)
next
  case 0
  then have "4 * i = length enc - 4" by simp
  then show ?case by (simp only: aes_rounds.simps aes_trace.simps)
qed

lemma aes_Decrypt_Encrypt:
  assumes "aes_inverse_keys enc dec" and "length b = 16"
  shows "aes_decryptBlock dec (aes_encryptBlock enc b) = b"
proof -
  let ?s = "aes_addkey enc 0 (aes_load b)" and ?nr = "length enc div 4 - 2"
  have nr: "4 * Suc ?nr = length enc - 4" "0 < ?nr" using assms(1) by (auto simp: aes_inverse_keys_def)
  have start: "aes_rounds f xk ?nr k u t = aes_rounds f xk ?nr k u u" for f xk k u t
    using nr(2) by (cases ?nr) simp_all
  have "aes_encryptBlock enc b = aes_store (aes_addkey enc (length enc - 4) (aes_subshift (aes_trace enc ?s ?nr)))"
    using aes_rounds_trace [of enc ?nr 0 ?s] nr
    by (simp add: aes_encryptBlock_eq start [of _ _ _ _ "(0, 0, 0, 0)"])
  moreover have "aes_addkey dec 0 s = aes_addkey enc (length enc - 4) s" "length dec = length enc"
      "aes_addkey dec (length enc - 4) s = aes_addkey enc 0 s" for s
    using assms(1) by (simp_all add: aes_inverse_keys_def)
  moreover have "aes_rounds aes_decrypt_round dec ?nr 4 (aes_subshift (aes_trace enc ?s ?nr)) (aes_subshift (aes_trace enc ?s ?nr)) =
      (aes_subshift ?s, length enc - 4)"
    using aes_rounds_undo [OF assms(1), of 1 ?nr ?s] nr by simp
  ultimately show ?thesis using assms(2)
    by (simp add: aes_decryptBlock_eq aes_load_store aes_addkey_cancel start [of _ _ _ _ "(0, 0, 0, 0)"]
        aes_unsubshift_subshift aes_store_load)
qed

text \<open>\<^verbatim>\<open>expandKey\<close> makes such a pair.\<close>

lemma aes_dec_word_eq:
  assumes "m < length enc" and "length enc mod 4 = 0"
  shows "aes_dec_word enc m =
    (let x = enc ! (length enc - m div 4 * 4 - 4 + m mod 4)
     in if 0 < m div 4 \<and> m div 4 * 4 + 4 < length enc then aes_unmix x else x)"
proof -
  have "aes_td ! 0 ! unat (aes_sbox0 ! unat (drop_bit 24 x)) XOR aes_td ! 1 ! unat (aes_sbox0 ! unat (drop_bit 16 x AND 0xff)) XOR
      aes_td ! 2 ! unat (aes_sbox0 ! unat (drop_bit 8 x AND 0xff)) XOR aes_td ! 3 ! unat (aes_sbox0 ! unat (x AND 0xff)) =
      aes_unmix x" for x
    unfolding index_bytes aes_S_def [symmetric] aes_td_nth aes_IS_S aes_unmix_def Let_def xor.assoc aes_word_xor
    by (simp only: ac_simps)
  then show ?thesis by (simp add: aes_dec_word_def Let_def)
qed

lemma aes_expand_group:
  assumes "4 * i + 4 \<le> length enc" and "j < 4" and "length enc mod 4 = 0"
  shows "aes_expand_dec enc ! (4 * i + j) =
    (let x = enc ! (length enc - 4 - 4 * i + j) in if 0 < i \<and> 4 * i + 4 < length enc then aes_unmix x else x)"
proof -
  have "(4 * i + j) div 4 = i" "(4 * i + j) mod 4 = j" "4 * i + j < length enc" using assms by auto
  then show ?thesis using aes_dec_word_eq [of "4 * i + j" enc] assms(3)
    by (simp add: aes_expand_dec_def Let_def mult.commute diff_commute add.commute)
qed

lemma aes_expand_inverse:
  assumes "length enc mod 4 = 0" and "8 < length enc"
  shows "aes_inverse_keys enc (aes_expand_dec enc)"
proof -
  have outer: "aes_addkey (aes_expand_dec enc) (4 * i) = aes_addkey enc (length enc - 4 - 4 * i)"
    if "4 * i + 4 \<le> length enc" "\<not> (0 < i \<and> 4 * i + 4 < length enc)" for i
  proof -
    note group = aes_expand_group [OF that(1) _ assms(1), unfolded Let_def if_not_P [OF that(2)]]
    show ?thesis using group [of 0] group [of 1] group [of 2] group [of 3]
      by (simp add: aes_addkey_def fun_eq_iff del: One_nat_def add_2_eq_Suc add_2_eq_Suc')
  qed
  have inner: "aes_addkey (aes_expand_dec enc) (4 * i) \<circ> aes_map aes_unmix =
      aes_map aes_unmix \<circ> aes_addkey enc (length enc - 4 - 4 * i)" if "0 < i" "4 * i + 4 < length enc" for i
    using that aes_expand_group [of i enc 0, OF _ _ assms(1)] aes_expand_group [of i enc 1, OF _ _ assms(1)]
      aes_expand_group [of i enc 2, OF _ _ assms(1)] aes_expand_group [of i enc 3, OF _ _ assms(1)]
    by (simp add: aes_addkey_def aes_map_def fun_eq_iff Let_def aes_unmix_xor
        del: One_nat_def add_2_eq_Suc add_2_eq_Suc')
  obtain q where q: "length enc = 4 * q" using assms(1) by auto
  then have "4 * (q - 1) = length enc - 4" by simp
  then have "aes_addkey (aes_expand_dec enc) (length enc - 4) = aes_addkey enc 0"
    using outer [of "q - 1"] q assms(2) by simp
  moreover have "aes_addkey (aes_expand_dec enc) 0 = aes_addkey enc (length enc - 4)" using outer [of 0] assms(2) by simp
  ultimately show ?thesis using inner assms by (simp add: aes_inverse_keys_def aes_expand_dec_def)
qed

subsection \<open>The contract\<close>

definition aes_ok :: "aes_Cipher \<Rightarrow> bool" where
  "aes_ok c \<longleftrightarrow> aes_inverse_keys (aes_enc c) (aes_dec c)"

lemma length_aes_expand_enc: "length key div 4 \<le> n \<Longrightarrow> length (aes_expand_enc key n) = n"
proof -
  have "length (fold (aes_expand_word nk) is enc) = length enc" for nk "is" enc
    by (induction "is" arbitrary: enc) (simp_all add: aes_expand_word_def Let_def)
  then show "length key div 4 \<le> n \<Longrightarrow> ?thesis" by (simp add: aes_expand_enc_def Let_def)
qed

lemma aes_NewCipher_ok: "aes_NewCipher key = Inr c \<Longrightarrow> aes_ok c"
proof -
  assume "aes_NewCipher key = Inr c"
  then have "length key \<in> {16, 24, 32}" and c: "aes_dec c = aes_expand_dec (aes_enc c)"
      "aes_enc c = aes_expand_enc key (length key + 28)"
    by (auto simp: aes_NewCipher_def Let_def split: if_splits)
  moreover from this have "length (aes_enc c) = length key + 28" by (simp add: length_aes_expand_enc)
  ultimately show ?thesis unfolding aes_ok_def c(1) by (intro aes_expand_inverse) auto
qed

interpretation aes: block_cipher aes_ops aes_ok 16 "\<lambda>c. aes_encryptBlock (aes_enc c)" "\<lambda>c. aes_decryptBlock (aes_dec c)"
proof unfold_locales
  fix c and b :: "byte list"
  assume "aes_ok c" "length b = 16"
  then show "aes_decryptBlock (aes_dec c) (aes_encryptBlock (aes_enc c) b) = b"
    by (simp add: aes_ok_def aes_Decrypt_Encrypt)
qed (auto simp: aes_ops_def aes_BlockSize_def aes_Encrypt_def aes_Decrypt_def aes_ok_def aes_inverse_keys_def
    aes_encryptBlock_eq aes_decryptBlock_eq length_aes_store Let_def fun_eq_iff split: prod.splits)

end
