(* ===== verification/Xtea.thy ===== *)
theory Xtea
  imports Block_Cipher
begin

text \<open>
  Package \<^verbatim>\<open>crypto/xtea\<close>: a Feistel cipher with addition, whose rounds read a table made from the
  key. Each of the 32 iterations of the loops does two rounds.
\<close>

subsection \<open>The code\<close>

definition xtea_BlockSize :: nat where "xtea_BlockSize = 8"

text \<open>\<^verbatim>\<open>Cipher\<close> is its field \<^verbatim>\<open>table\<close>.\<close>

type_synonym xtea_Cipher = "uint32 list"

definition xtea_blockToUint32 :: "byte list \<Rightarrow> uint32 \<times> uint32" where
  "xtea_blockToUint32 src = (be32 src 0, be32 src 4)"

definition xtea_uint32ToBlock :: "uint32 \<times> uint32 \<Rightarrow> byte list" where
  "xtea_uint32ToBlock v = (case v of (v0, v1) \<Rightarrow>
     [byte_at 24 v0, byte_at 16 v0, byte_at 8 v0, byte_at 0 v0,
      byte_at 24 v1, byte_at 16 v1, byte_at 8 v1, byte_at 0 v1])"

text \<open>\<^verbatim>\<open>(v<<4 ^ v>>5) + v\<close>\<close>

definition xtea_mix :: "uint32 \<Rightarrow> uint32" where
  "xtea_mix v = (push_bit 4 v XOR drop_bit 5 v) + v"

definition xtea_encrypt_rounds :: "xtea_Cipher \<Rightarrow> nat \<Rightarrow> uint32 \<times> uint32 \<Rightarrow> uint32 \<times> uint32" where
  "xtea_encrypt_rounds table i v =
     (let (v0, v1) = v;
          v0 = v0 + (xtea_mix v1 XOR table ! (2 * i));
          v1 = v1 + (xtea_mix v0 XOR table ! (2 * i + 1))
      in (v0, v1))"

definition xtea_encryptBlock :: "xtea_Cipher \<Rightarrow> byte list \<Rightarrow> byte list" where
  "xtea_encryptBlock c src =
     xtea_uint32ToBlock (fold (xtea_encrypt_rounds c) [0..<32] (xtea_blockToUint32 src))"

definition xtea_decrypt_rounds :: "xtea_Cipher \<Rightarrow> nat \<Rightarrow> uint32 \<times> uint32 \<Rightarrow> uint32 \<times> uint32" where
  "xtea_decrypt_rounds table i v =
     (let (v0, v1) = v;
          v1 = v1 - (xtea_mix v0 XOR table ! (2 * i + 1));
          v0 = v0 - (xtea_mix v1 XOR table ! (2 * i))
      in (v0, v1))"

definition xtea_decryptBlock :: "xtea_Cipher \<Rightarrow> byte list \<Rightarrow> byte list" where
  "xtea_decryptBlock c src =
     xtea_uint32ToBlock (fold (xtea_decrypt_rounds c) (rev [0..<32]) (xtea_blockToUint32 src))"

text \<open>
  The loop that fills the table: the state is the table, of which the first \<open>2 * i\<close> entries have
  been stored, and \<^verbatim>\<open>sum\<close>.
\<close>

definition xtea_delta :: uint32 where "xtea_delta = 0x9E3779B9"

definition xtea_schedule :: "uint32 list \<Rightarrow> nat \<Rightarrow> uint32 list \<times> uint32 \<Rightarrow> uint32 list \<times> uint32" where
  "xtea_schedule k i st =
     (let (table, sum) = st;
          table = table[2 * i := sum + k ! unat (sum AND 3)];
          sum = sum + xtea_delta;
          table = table[2 * i + 1 := sum + k ! unat (drop_bit 11 sum AND 3)]
      in (table, sum))"

definition xtea_initCipher :: "byte list \<Rightarrow> xtea_Cipher" where
  "xtea_initCipher key =
     (let k = map (\<lambda>i. be32 key (4 * i)) [0..<4]
      in fst (fold (xtea_schedule k) [0..<32] (replicate 64 0, 0)))"

text \<open>\<^verbatim>\<open>NewCipher\<close>: the error is a \<^verbatim>\<open>KeySizeError\<close> with the size.\<close>

definition xtea_NewCipher :: "byte list \<Rightarrow> nat + xtea_Cipher" where
  "xtea_NewCipher key = (if length key = 16 then Inr (xtea_initCipher key) else Inl (length key))"

definition xtea_Encrypt :: "xtea_Cipher \<Rightarrow> byte list \<Rightarrow> byte list \<Rightarrow> byte list go" where
  "xtea_Encrypt c = cipher_store 8 (xtea_encryptBlock c)"

definition xtea_Decrypt :: "xtea_Cipher \<Rightarrow> byte list \<Rightarrow> byte list \<Rightarrow> byte list go" where
  "xtea_Decrypt c = cipher_store 8 (xtea_decryptBlock c)"

definition xtea_Reset :: "xtea_Cipher \<Rightarrow> xtea_Cipher" where
  "xtea_Reset c = replicate (length c) 0"

definition xtea_ops :: "xtea_Cipher cipher_ops" where
  "xtea_ops = \<lparr>cipher_BlockSize = \<lambda>c. xtea_BlockSize, cipher_Encrypt = xtea_Encrypt, cipher_Decrypt = xtea_Decrypt\<rparr>"

subsection \<open>The rounds are inverse\<close>

lemma xtea_rounds_inverse:
  "xtea_decrypt_rounds t i (xtea_encrypt_rounds t i v) = v"
  by (cases v) (simp only: xtea_decrypt_rounds_def xtea_encrypt_rounds_def Let_def prod.case add_diff_cancel_right')

lemma xtea_block_words: "length b = 8 \<Longrightarrow> xtea_uint32ToBlock (xtea_blockToUint32 b) = b"
  using bytes_be32 [of b 0] bytes_be32 [of b 4] list8_nth [of b]
  by (simp add: xtea_uint32ToBlock_def xtea_blockToUint32_def numeral_2_eq_2)

lemma length_xtea_block: "length (xtea_uint32ToBlock v) = 8"
  by (cases v) (simp add: xtea_uint32ToBlock_def)

lemma xtea_words_block: "xtea_blockToUint32 (xtea_uint32ToBlock v) = v"
  by (cases v) (simp add: xtea_uint32ToBlock_def xtea_blockToUint32_def be32_front be32_second)

interpretation xtea: block_cipher xtea_ops "\<lambda>c. True" 8 xtea_encryptBlock xtea_decryptBlock
proof unfold_locales
  fix c b
  assume len: "length (b :: byte list) = 8"
  show "xtea_decryptBlock c (xtea_encryptBlock c b) = b"
    using fold_rev_inverse [of "xtea_decrypt_rounds c" "xtea_encrypt_rounds c" "[0..<32]"] len
    by (simp add: xtea_decryptBlock_def xtea_encryptBlock_def xtea_words_block xtea_rounds_inverse xtea_block_words)
qed (simp_all add: xtea_ops_def xtea_BlockSize_def xtea_Encrypt_def xtea_Decrypt_def xtea_encryptBlock_def
    xtea_decryptBlock_def length_xtea_block)

end
