(* ===== verification/Rc4.thy ===== *)
theory Rc4
  imports Go_Prelude "HOL-Library.Multiset"
begin

text \<open>
  Package \<^verbatim>\<open>crypto/rc4\<close>. The state is the array \<^verbatim>\<open>s\<close> of 256 bytes, which is a permutation of all bytes
  at all times, and two indices, bytes whose arithmetic wraps around.
\<close>

subsection \<open>The code\<close>

record rc4_Cipher =
  rc4_s :: "byte list"
  rc4_i :: byte
  rc4_j :: byte

text \<open>\<^verbatim>\<open>s[i], s[j] = s[j], s[i]\<close>\<close>

definition rc4_swap :: "byte list \<Rightarrow> byte \<Rightarrow> byte \<Rightarrow> byte list" where
  "rc4_swap s i j = s[unat i := s ! unat j, unat j := s ! unat i]"

text \<open>The body of the second loop of \<^verbatim>\<open>NewCipher\<close>, for the index \<open>i < 256\<close>.\<close>

definition rc4_mix :: "byte list \<Rightarrow> nat \<Rightarrow> byte list \<times> byte \<Rightarrow> byte list \<times> byte" where
  "rc4_mix key i st =
     (let (s, j) = st;
          j = j + (s ! i + key ! (i mod length key))
      in (rc4_swap s (of_nat i) j, j))"

text \<open>\<^verbatim>\<open>NewCipher\<close>: the error is a \<^verbatim>\<open>KeySizeError\<close> with the size.\<close>

definition rc4_NewCipher :: "byte list \<Rightarrow> nat + rc4_Cipher" where
  "rc4_NewCipher key =
     (let k = length key
      in if k < 1 \<or> k > 256 then Inl k
         else let s = map of_nat [0..<256]
              in Inr \<lparr>rc4_s = fst (fold (rc4_mix key) [0..<256] (s, 0)), rc4_i = 0, rc4_j = 0\<rparr>)"

text \<open>One iteration of the loop of \<^verbatim>\<open>XORKeyStream\<close>: the new state and the byte of the key stream.\<close>

definition rc4_next :: "rc4_Cipher \<Rightarrow> rc4_Cipher \<times> byte" where
  "rc4_next c =
     (let i = rc4_i c + 1;
          j = rc4_j c + rc4_s c ! unat i;
          s = rc4_swap (rc4_s c) i j
      in (\<lparr>rc4_s = s, rc4_i = i, rc4_j = j\<rparr>, s ! unat (s ! unat i + s ! unat j)))"

fun rc4_XORKeyStream :: "rc4_Cipher \<Rightarrow> byte list \<Rightarrow> rc4_Cipher \<times> byte list" where
  "rc4_XORKeyStream c [] = (c, [])"
| "rc4_XORKeyStream c (b # buf) =
     (let (c, k) = rc4_next c;
          (c, out) = rc4_XORKeyStream c buf
      in (c, (b XOR k) # out))"

definition rc4_Reset :: "rc4_Cipher \<Rightarrow> rc4_Cipher" where
  "rc4_Reset c = \<lparr>rc4_s = replicate (length (rc4_s c)) 0, rc4_i = 0, rc4_j = 0\<rparr>"

subsection \<open>The permutation\<close>

definition rc4_ok :: "rc4_Cipher \<Rightarrow> bool" where
  "rc4_ok c \<longleftrightarrow> length (rc4_s c) = 256 \<and> distinct (rc4_s c)"

lemma rc4_swap_perm:
  assumes "length s = 256"
  shows "mset (rc4_swap s i j) = mset s"
  using mset_swap [of "unat j" s "unat i"] assms unat_byte_less [of i] unat_byte_less [of j]
  by (simp add: rc4_swap_def)

lemma rc4_swap_ok:
  assumes "length s = 256"
  shows "length (rc4_swap s i j) = 256" "distinct (rc4_swap s i j) = distinct s"
  using assms rc4_swap_perm [OF assms, of i j] mset_eq_imp_distinct_iff by (auto simp: rc4_swap_def)

lemma rc4_mix_ok:
  "length (fst st) = 256 \<Longrightarrow> length (fst (rc4_mix key i st)) = 256 \<and>
   distinct (fst (rc4_mix key i st)) = distinct (fst st)"
  by (cases st) (simp add: rc4_mix_def Let_def rc4_swap_ok)

lemma rc4_fold_ok:
  "length (fst st) = 256 \<Longrightarrow> length (fst (fold (rc4_mix key) is st)) = 256 \<and>
   distinct (fst (fold (rc4_mix key) is st)) = distinct (fst st)"
  by (induction "is" arbitrary: st) (simp_all add: rc4_mix_ok)

lemma rc4_identity: "distinct (map (of_nat :: nat \<Rightarrow> byte) [0..<256])"
proof -
  have "inj_on (of_nat :: nat \<Rightarrow> byte) {0..<256}"
  proof (rule inj_onI)
    fix x y :: nat
    assume "x \<in> {0..<256}" "y \<in> {0..<256}" "(of_nat x :: byte) = of_nat y"
    then have "unat (of_nat x :: byte) = unat (of_nat y :: byte)" "x < 256" "y < 256" by auto
    then show "x = y" by (simp add: unat_of_nat)
  qed
  then show ?thesis by (simp add: distinct_map)
qed

lemma rc4_next_ok: "rc4_ok c \<Longrightarrow> rc4_ok (fst (rc4_next c))"
  by (simp add: rc4_ok_def rc4_next_def Let_def rc4_swap_ok)

lemma rc4_XORKeyStream_ok: "rc4_ok c \<Longrightarrow> rc4_ok (fst (rc4_XORKeyStream c buf))"
proof (induction buf arbitrary: c)
  case (Cons b buf)
  then show ?case using rc4_next_ok [OF Cons.prems] by (simp add: Let_def split_beta)
qed simp

subsection \<open>The key stream\<close>

text \<open>The state afterwards and the key stream do not depend on the data.\<close>

lemma rc4_XOR_state: "length p = length q \<Longrightarrow> fst (rc4_XORKeyStream c p) = fst (rc4_XORKeyStream c q)"
proof (induction p arbitrary: q c)
  case (Cons b p)
  then obtain d q' where "q = d # q'" by (cases q) auto
  with Cons show ?case by (simp add: Let_def split_beta)
qed simp

lemma rc4_XOR_invol: "snd (rc4_XORKeyStream c (snd (rc4_XORKeyStream c p))) = p"
  by (induction p arbitrary: c) (simp_all add: Let_def split_beta xor.assoc)

lemma rc4_XOR_length: "length (snd (rc4_XORKeyStream c p)) = length p"
  by (induction p arbitrary: c) (simp_all add: Let_def split_beta)

lemma rc4_XOR_append:
  "rc4_XORKeyStream c (p @ q) =
     (let (c, p) = rc4_XORKeyStream c p; (c, q) = rc4_XORKeyStream c q in (c, p @ q))"
  by (induction p arbitrary: c) (simp_all add: Let_def split_beta)

lemma rc4_XOR_Reset:
  assumes "length (rc4_s c) = 256"
  shows "snd (rc4_XORKeyStream (rc4_Reset c) p) = p"
proof -
  have "snd (rc4_XORKeyStream c' p) = p" if "rc4_s c' = replicate 256 0" for c'
    using that
  proof (induction p arbitrary: c')
    case (Cons b p)
    have zero: "replicate 256 (0 :: byte) ! unat (x :: byte) = 0" for x using unat_byte_less [of x] by simp
    have "(replicate 256 (0 :: byte))[unat x := 0] = replicate 256 0" for x :: byte
      using list_update_id [of "replicate 256 (0 :: byte)" "unat x"] by (simp only: zero)
    then have "rc4_swap (replicate 256 0) i j = replicate 256 0" for i j by (simp add: rc4_swap_def zero)
    then show ?case using Cons by (simp add: rc4_next_def Let_def split_beta zero)
  qed simp
  then show ?thesis using assms by (simp add: rc4_Reset_def)
qed

subsection \<open>Properties\<close>

text \<open>
  C36: the state is a permutation of the 256 bytes. \<^verbatim>\<open>NewCipher\<close> makes one from every key of 1 to 256
  bytes, and refuses all others with their size; \<^verbatim>\<open>XORKeyStream\<close> keeps it one for ever.
\<close>

theorem rc4_permutation:
  "(case rc4_NewCipher key of
      Inl n \<Rightarrow> n = length key \<and> n \<notin> {1..256}
    | Inr c \<Rightarrow> length key \<in> {1..256} \<and> set (rc4_s (fst (rc4_XORKeyStream c p))) = UNIV \<and>
               distinct (rc4_s (fst (rc4_XORKeyStream c p))) \<and> length (rc4_s (fst (rc4_XORKeyStream c p))) = 256)"
proof (cases "rc4_NewCipher key")
  case (Inl n)
  then show ?thesis by (auto simp: rc4_NewCipher_def Let_def split: if_splits)
next
  case (Inr c)
  then have key: "length key \<in> {1..256}"
    by (auto simp: rc4_NewCipher_def Let_def Suc_le_eq split: if_splits)
  then have "c = \<lparr>rc4_s = fst (fold (rc4_mix key) [0..<256] (map of_nat [0..<256], 0)), rc4_i = 0, rc4_j = 0\<rparr>"
    using Inr by (auto simp: rc4_NewCipher_def Let_def split: if_splits)
  then have "rc4_ok c"
    using rc4_fold_ok [of "(map of_nat [0..<256], 0)" key "[0..<256]"] rc4_identity by (simp add: rc4_ok_def)
  then have "rc4_ok (fst (rc4_XORKeyStream c p))" by (rule rc4_XORKeyStream_ok)
  moreover from this have "card (set (rc4_s (fst (rc4_XORKeyStream c p)))) = CARD(byte)"
    by (simp add: rc4_ok_def distinct_card card_word)
  then have "set (rc4_s (fst (rc4_XORKeyStream c p))) = UNIV" by (simp add: card_eq_UNIV_imp_eq_UNIV)
  ultimately show ?thesis using Inr key by (simp add: rc4_ok_def)
qed



end
