(* ===== verification/Sync_Mutex.thy ===== *)
theory Sync_Mutex
  imports Go_Prelude
begin

text \<open>
  \<^verbatim>\<open>sync.Mutex\<close> under every interleaving of its goroutines. A goroutine that calls \<^verbatim>\<open>Lock\<close> and
  \<^verbatim>\<open>Unlock\<close> over and over is a program counter \<open>mutex_pc\<close>; the atomic actions of the code, which are
  the load and the compare-and-swap in the loop of \<^verbatim>\<open>xadd\<close> and the two semaphore calls, are the steps
  of the relation \<open>mutex_step\<close>. \<^verbatim>\<open>cas\<close> and the semaphores do what the comments in package \<^verbatim>\<open>runtime\<close> say:
  \<^verbatim>\<open>Semacquire\<close> waits until the count is positive and decrements it, \<^verbatim>\<open>Semrelease\<close> increments it. \<^verbatim>\<open>key\<close>
  is a 32-bit word and wraps around; the number \<open>N\<close> of goroutines is below \<open>2 ^ 32\<close>.
\<close>

subsection \<open>The steps\<close>

datatype mutex_pc =
    Idle                 \<comment> \<open>outside\<close>
  | LockLoad             \<comment> \<open>\<^verbatim>\<open>Lock\<close>: before \<^verbatim>\<open>v := *val\<close>\<close>
  | LockCas uint32       \<comment> \<open>\<^verbatim>\<open>Lock\<close>: before \<^verbatim>\<open>cas(val, v, v+1)\<close>\<close>
  | Sleep                \<comment> \<open>\<^verbatim>\<open>Lock\<close>: in \<^verbatim>\<open>Semacquire\<close>\<close>
  | Critical             \<comment> \<open>\<^verbatim>\<open>Lock\<close> has returned\<close>
  | UnlockLoad           \<comment> \<open>\<^verbatim>\<open>Unlock\<close>: before \<^verbatim>\<open>v := *val\<close>\<close>
  | UnlockCas uint32     \<comment> \<open>\<^verbatim>\<open>Unlock\<close>: before \<^verbatim>\<open>cas(val, v, v-1)\<close>\<close>
  | Wake                 \<comment> \<open>\<^verbatim>\<open>Unlock\<close>: before \<^verbatim>\<open>Semrelease\<close>\<close>

record mutex =
  mutex_key :: uint32
  mutex_sema :: uint32
  mutex_pcs :: "nat \<Rightarrow> mutex_pc"

definition mutex_zero :: mutex where
  "mutex_zero = \<lparr>mutex_key = 0, mutex_sema = 0, mutex_pcs = \<lambda>_. Idle\<rparr>"

text \<open>
  What a goroutine does next: the new \<^verbatim>\<open>key\<close>, semaphore and program counter, or \<open>None\<close> while it is
  blocked. One equation per atomic action, in the order of the code.
\<close>

fun mutex_next :: "uint32 \<Rightarrow> uint32 \<Rightarrow> mutex_pc \<Rightarrow> (uint32 \<times> uint32 \<times> mutex_pc) option" where
  "mutex_next key sema Idle = Some (key, sema, LockLoad)"
| "mutex_next key sema LockLoad = Some (key, sema, LockCas key)"
| "mutex_next key sema (LockCas v) =
     (if key = v then Some (v + 1, sema, if v + 1 = 1 then Critical else Sleep)
      else Some (key, sema, LockLoad))"
| "mutex_next key sema Sleep = (if sema \<noteq> 0 then Some (key, sema - 1, Critical) else None)"
| "mutex_next key sema Critical = Some (key, sema, UnlockLoad)"
| "mutex_next key sema UnlockLoad = Some (key, sema, UnlockCas key)"
| "mutex_next key sema (UnlockCas v) =
     (if key = v then Some (v - 1, sema, if v - 1 = 0 then Idle else Wake)
      else Some (key, sema, UnlockLoad))"
| "mutex_next key sema Wake = Some (key, sema + 1, Idle)"

inductive mutex_step :: "nat \<Rightarrow> mutex \<Rightarrow> mutex \<Rightarrow> bool" for N where
  step: "i < N \<Longrightarrow> mutex_next (mutex_key m) (mutex_sema m) (mutex_pcs m i) = Some (key, sema, pc) \<Longrightarrow>
    mutex_step N m \<lparr>mutex_key = key, mutex_sema = sema, mutex_pcs = (mutex_pcs m)(i := pc)\<rparr>"

inductive_cases mutex_stepE: "mutex_step N m m'"

inductive mutex_reachable :: "nat \<Rightarrow> mutex \<Rightarrow> bool" for N where
  start: "mutex_reachable N mutex_zero"
| more: "mutex_reachable N m \<Longrightarrow> mutex_step N m m' \<Longrightarrow> mutex_reachable N m'"

subsection \<open>Counting goroutines\<close>

definition count :: "nat \<Rightarrow> ('p \<Rightarrow> bool) \<Rightarrow> (nat \<Rightarrow> 'p) \<Rightarrow> nat" where
  "count N P pcs = (\<Sum>i < N. if P (pcs i) then 1 else 0)"

lemma count_upd:
  assumes "i < N"
  shows "count N P (pcs(i := p)) + of_bool (P (pcs i)) = count N P pcs + of_bool (P p)"
proof -
  have "count N P q = of_bool (P (q i)) + (\<Sum>j \<in> {..<N} - {i}. if P (q j) then 1 else 0)" for q
    unfolding count_def using assms by (simp add: sum.remove)
  moreover have "(\<Sum>j \<in> {..<N} - {i}. if P ((pcs(i := p)) j) then 1 else 0 :: nat) =
      (\<Sum>j \<in> {..<N} - {i}. if P (pcs j) then 1 else 0)"
    by (rule sum.cong) simp_all
  ultimately show ?thesis by simp
qed

lemma count_le: "count N P pcs \<le> N"
proof -
  have "count N P pcs \<le> (\<Sum>i < N. 1)" unfolding count_def by (rule sum_mono) simp
  then show ?thesis by simp
qed

lemma count_0: "count N P pcs = 0 \<longleftrightarrow> (\<forall>i < N. \<not> P (pcs i))"
  by (auto simp: count_def)

lemma count_pos: "i < N \<Longrightarrow> P (pcs i) \<Longrightarrow> 0 < count N P pcs"
  using count_0 [of N P pcs] by auto

lemma count_two:
  assumes "i < N" and "j < N" and "i \<noteq> j" and "P (pcs i)" and "P (pcs j)"
  shows "2 \<le> count N P pcs"
proof -
  have "(\<Sum>k \<in> {i, j}. if P (pcs k) then 1 else 0 :: nat) \<le> count N P pcs"
    unfolding count_def using assms(1,2) by (intro sum_mono2) auto
  then show ?thesis using assms(3-5) by simp
qed

lemma count_disj:
  assumes "\<And>p. \<not> (P p \<and> Q p)"
  shows "count N (\<lambda>p. P p \<or> Q p) pcs = count N P pcs + count N Q pcs"
proof -
  have "(if P p \<or> Q p then 1 else 0 :: nat) = (if P p then 1 else 0) + (if Q p then 1 else 0)" for p
    using assms [of p] by auto
  then show ?thesis unfolding count_def by (simp add: sum.distrib)
qed

subsection \<open>The invariant\<close>

fun holds_mutex :: "mutex_pc \<Rightarrow> bool" where
  "holds_mutex Critical = True"
| "holds_mutex UnlockLoad = True"
| "holds_mutex (UnlockCas v) = True"
| "holds_mutex _ = False"

text \<open>
  \<^verbatim>\<open>key\<close> counts the goroutines that hold the lock or sleep for it. While it is not zero there is
  exactly one token, which a holder has, or a goroutine about to release the semaphore, or the
  semaphore itself.
\<close>

definition mutex_inv :: "nat \<Rightarrow> mutex \<Rightarrow> bool" where
  "mutex_inv N m \<longleftrightarrow>
     unat (mutex_key m) = count N holds_mutex (mutex_pcs m) + count N (\<lambda>p. p = Sleep) (mutex_pcs m) \<and>
     count N holds_mutex (mutex_pcs m) + count N (\<lambda>p. p = Wake) (mutex_pcs m) + unat (mutex_sema m) =
       of_bool (count N holds_mutex (mutex_pcs m) + count N (\<lambda>p. p = Sleep) (mutex_pcs m) \<noteq> 0)"

lemma mutex_inv_token:
  "mutex_inv N m \<Longrightarrow>
     count N holds_mutex (mutex_pcs m) + count N (\<lambda>p. p = Wake) (mutex_pcs m) + unat (mutex_sema m) \<le> 1"
  unfolding mutex_inv_def by (elim conjE) (simp only: of_bool_less_eq_one)

lemma mutex_inv_zero: "mutex_inv N mutex_zero"
  by (simp add: mutex_inv_def mutex_zero_def count_def)

lemma unat_inc: "unat (w :: uint32) + 1 < 2 ^ 32 \<Longrightarrow> unat (w + 1) = unat w + 1"
  using unat_add_no_wrap [of w 1] by simp

lemma unat_dec: "0 < unat (w :: uint32) \<Longrightarrow> unat (w - 1) = unat w - 1"
  by (metis unat_minus_one unat_0 less_irrefl)

lemma holds_mutex_total: "count N holds_mutex q + count N (\<lambda>p. p = Sleep) q \<le> N"
proof -
  have "\<not> (holds_mutex p \<and> p = Sleep)" for p by (cases p) simp_all
  then show ?thesis
    using count_disj [of holds_mutex "\<lambda>p. p = Sleep" N q] count_le [of N "\<lambda>p. holds_mutex p \<or> p = Sleep" q]
    by simp
qed

lemma mutex_next_inv:
  assumes "mutex_next key sema p = Some (key', sema', p')"
    and "h' + of_bool (holds_mutex p) = h + of_bool (holds_mutex p')"
    and "s' + of_bool (p = Sleep) = s + of_bool (p' = Sleep)"
    and "w' + of_bool (p = Wake) = w + of_bool (p' = Wake)"
    and "unat key = h + s" and "h + w + unat sema = of_bool (h + s \<noteq> 0)"
    and "h' + s' < 2 ^ 32" and "holds_mutex p \<Longrightarrow> 0 < h" and "p = Wake \<Longrightarrow> 0 < w"
  shows "unat key' = h' + s' \<and> h' + w' + unat sema' = of_bool (h' + s' \<noteq> 0)"
proof (cases p)
  case (LockCas v)
  show ?thesis
  proof (cases "key = v")
    case True
    then have pc: "p' = (if v + 1 = 1 then Critical else Sleep)" "key' = v + 1" "sema' = sema"
      using assms(1) LockCas by auto
    have "unat v + 1 < 2 ^ 32" using assms(2,3,5,7) LockCas True pc(1) by (cases "v + 1 = 1") simp_all
    then have inc: "unat (v + 1) = unat v + 1" by (rule unat_inc)
    have "v + 1 = 1 \<longleftrightarrow> h + s = 0" using inc assms(5) True by (metis add_0 add_right_cancel unat_eq_zero)
    then show ?thesis using assms(2-6) LockCas pc inc True by (cases "h + s = 0") (auto simp: max_def of_bool_def)
  qed (use assms LockCas in simp)
next
  case (UnlockCas v)
  show ?thesis
  proof (cases "key = v")
    case True
    then have pc: "p' = (if v - 1 = 0 then Idle else Wake)" "key' = v - 1" "sema' = sema"
      using assms(1) UnlockCas by auto
    have h: "h = 1" "w = 0" "unat sema = 0" using assms(6,8) UnlockCas by simp_all
    then have dec: "unat (v - 1) = unat v - 1" using assms(5) True by (intro unat_dec) simp
    have "v - 1 = 0 \<longleftrightarrow> s = 0" using dec h(1) assms(5) True
      by (metis add_diff_cancel_left' unat_eq_zero)
    then show ?thesis using assms(2-5) UnlockCas pc dec h True by (cases "s = 0") simp_all
  qed (use assms UnlockCas in simp)
next
  case Sleep
  then have "sema \<noteq> 0" "sema' = sema - 1" "p' = Critical" "key' = key" using assms(1) by (simp_all split: if_splits)
  moreover from this have "0 < unat sema" "unat (sema - 1) = unat sema - 1" by (simp_all add: unat_gt_0 unat_dec)
  ultimately show ?thesis using assms(2-6) Sleep by (cases "h + s = 0") simp_all
next
  case Wake
  then have "w = 1" "h = 0" "s \<noteq> 0" "unat sema = 0" using assms(6,9) by (cases "h + s = 0"; simp)+
  moreover from this have "unat (sema + 1) = 1" by (simp add: unat_eq_zero)
  ultimately show ?thesis using assms(1-5) Wake by simp
next
  case LockLoad
  then have "key' = key \<and> sema' = sema \<and> p' = LockCas key" using assms(1) by auto
  then show ?thesis using assms(2-6) LockLoad by simp
next
  case UnlockLoad
  then have "key' = key \<and> sema' = sema \<and> p' = UnlockCas key" using assms(1) by auto
  then show ?thesis using assms(2-6) UnlockLoad by simp
qed (use assms in simp_all)

lemma mutex_inv_step:
  assumes inv: "mutex_inv N m" and "mutex_step N m m'" and N: "N < 2 ^ 32"
  shows "mutex_inv N m'"
  using assms(2)
proof (cases rule: mutex_step.cases)
  case (step i key sema pc)
  let ?q = "(mutex_pcs m)(i := pc)"
  note upd = count_upd [OF step(2), of _ "mutex_pcs m" pc]
  show ?thesis unfolding mutex_inv_def step(1) mutex.simps
    by (rule mutex_next_inv [OF step(3) upd upd upd])
      (use inv [unfolded mutex_inv_def] holds_mutex_total [of N ?q] N step(2) in \<open>simp_all add: count_pos\<close>)
qed

lemma mutex_reachable_inv:
  assumes "mutex_reachable N m" and "N < 2 ^ 32"
  shows "mutex_inv N m"
  using assms(1) by induction (auto simp: mutex_inv_zero intro: mutex_inv_step assms(2))

subsection \<open>What a lock promises\<close>

text \<open>The contract: the goroutines that hold the lock, and what one step may do to them.\<close>

definition lock_owners :: "nat \<Rightarrow> mutex \<Rightarrow> nat set" where
  "lock_owners N m = {i. i < N \<and> holds_mutex (mutex_pcs m i)}"

inductive lock_spec :: "nat set \<Rightarrow> nat set \<Rightarrow> bool" where
  acquire: "lock_spec {} {i}"
| release: "lock_spec {i} {}"
| stutter: "lock_spec os os"

lemma lock_owners_upd:
  assumes "i < N"
  shows "lock_owners N (m\<lparr>mutex_pcs := (mutex_pcs m)(i := pc)\<rparr>) =
    (if holds_mutex pc then insert i (lock_owners N m) else lock_owners N m - {i})"
  using assms by (auto simp: lock_owners_def)

lemma lock_owners_le1:
  assumes "mutex_inv N m" and "i \<in> lock_owners N m" and "j \<in> lock_owners N m"
  shows "i = j"
proof (rule ccontr)
  assume "i \<noteq> j"
  with assms(2,3) have "2 \<le> count N holds_mutex (mutex_pcs m)"
    by (intro count_two [of i N j]) (simp_all add: lock_owners_def)
  with assms(1) show False by (simp add: mutex_inv_def split: if_splits)
qed

lemma lock_owners_none_or_one:
  assumes "mutex_inv N m"
  shows "lock_owners N m = {} \<or> (\<exists>i. lock_owners N m = {i})"
  using lock_owners_le1 [OF assms] by blast

lemma mutex_step_spec:
  assumes "mutex_inv N m" and "mutex_inv N m'" and "mutex_step N m m'"
  shows "lock_spec (lock_owners N m) (lock_owners N m')"
  using assms(3)
proof (cases rule: mutex_step.cases)
  case (step i key sema pc)
  have "lock_owners N m' = lock_owners N (m\<lparr>mutex_pcs := (mutex_pcs m)(i := pc)\<rparr>)"
    by (simp add: step(1) lock_owners_def)
  then have upd: "lock_owners N m' =
      (if holds_mutex pc then insert i (lock_owners N m) else lock_owners N m - {i})"
    by (simp only: lock_owners_upd [OF step(2)])
  show ?thesis
  proof (cases "holds_mutex pc")
    case True
    with upd have ins: "lock_owners N m' = insert i (lock_owners N m)" by simp
    with lock_owners_none_or_one [OF assms(2)] have "lock_owners N m = {} \<or> lock_owners N m = {i}"
      by (metis insert_not_empty singleton_insert_inj_eq subset_singletonD)
    with ins show ?thesis by (elim disjE) (simp_all add: lock_spec.intros)
  next
    case False
    with upd have del: "lock_owners N m' = lock_owners N m - {i}" by simp
    with lock_owners_none_or_one [OF assms(1)] have "lock_owners N m' = lock_owners N m \<or>
        lock_owners N m = {i} \<and> lock_owners N m' = {}"
      by (elim disjE exE) (simp_all add: insert_Diff_if)
    then show ?thesis by (elim disjE) (simp_all add: lock_spec.intros)
  qed
qed

text \<open>
  C34: every execution of \<^verbatim>\<open>Lock\<close> and \<^verbatim>\<open>Unlock\<close> by fewer than \<open>2 ^ 32\<close> goroutines is an execution
  of a lock: at every moment at most one goroutine holds it, and each atomic step leaves the owner
  alone, gives a free lock to one goroutine, or frees it.
\<close>

theorem mutex_refines_lock:
  assumes "mutex_reachable N m" and "N < 2 ^ 32"
  shows "(\<forall>i j. i \<in> lock_owners N m \<longrightarrow> j \<in> lock_owners N m \<longrightarrow> i = j) \<and>
    (\<forall>m'. mutex_step N m m' \<longrightarrow> lock_spec (lock_owners N m) (lock_owners N m'))"
proof -
  have inv: "mutex_inv N m" by (rule mutex_reachable_inv [OF assms])
  show ?thesis
    by (intro conjI allI impI, erule (1) lock_owners_le1 [OF inv])
      (rule mutex_step_spec [OF inv mutex_inv_step [OF inv _ assms(2)]], assumption+)
qed

theorem mutex_refines_lock_witness:
  "mutex_reachable 2 mutex_zero \<and>
   lock_spec (lock_owners 2 mutex_zero)
     (lock_owners 2 \<lparr>mutex_key = 0, mutex_sema = 0, mutex_pcs = (\<lambda>_. Idle)(0 := LockLoad)\<rparr>)"
proof -
  have "mutex_step 2 mutex_zero \<lparr>mutex_key = 0, mutex_sema = 0, mutex_pcs = (\<lambda>_. Idle)(0 := LockLoad)\<rparr>"
    using mutex_step.step [of 0 2 mutex_zero 0 0 LockLoad] by (simp add: mutex_zero_def)
  then show ?thesis using mutex_refines_lock [OF mutex_reachable.start, of 2] mutex_reachable.start by simp
qed

subsection \<open>No lost wake-up\<close>

text \<open>A schedule names the goroutine that makes each step; \<open>None\<close> when it names a blocked one.\<close>

fun mutex_run :: "nat \<Rightarrow> nat list \<Rightarrow> mutex \<Rightarrow> mutex option" where
  "mutex_run N [] m = Some m"
| "mutex_run N (i # sched) m =
     (if i < N
      then case mutex_next (mutex_key m) (mutex_sema m) (mutex_pcs m i) of
             None \<Rightarrow> None
           | Some (key, sema, pc) \<Rightarrow>
               mutex_run N sched \<lparr>mutex_key = key, mutex_sema = sema, mutex_pcs = (mutex_pcs m)(i := pc)\<rparr>
      else None)"

lemma mutex_run_append:
  "mutex_run N (xs @ ys) m = Option.bind (mutex_run N xs m) (mutex_run N ys)"
  by (induction xs arbitrary: m) (auto split: option.split)

lemma mutex_run_reachable:
  "mutex_run N sched m = Some m' \<Longrightarrow> mutex_reachable N m \<Longrightarrow> mutex_reachable N m'"
  by (induction sched arbitrary: m)
    (auto split: if_splits option.splits intro: mutex_reachable.more mutex_step.step)

definition mutex_after :: "mutex \<Rightarrow> nat \<Rightarrow> uint32 \<times> uint32 \<times> mutex_pc \<Rightarrow> mutex" where
  "mutex_after m j r = (case r of (key, sema, pc) \<Rightarrow>
     \<lparr>mutex_key = key, mutex_sema = sema, mutex_pcs = (mutex_pcs m)(j := pc)\<rparr>)"

definition mutex_granted :: "nat \<Rightarrow> nat \<Rightarrow> mutex \<Rightarrow> bool" where
  "mutex_granted N i m \<longleftrightarrow> (\<exists>sched m'. mutex_run N sched m = Some m' \<and> mutex_pcs m' i = Critical)"

lemma mutex_granted_step:
  assumes "j < N" and "mutex_next (mutex_key m) (mutex_sema m) (mutex_pcs m j) = Some r"
    and "mutex_granted N i (mutex_after m j r)"
  shows "mutex_granted N i m"
proof -
  obtain sched m' where "mutex_run N sched (mutex_after m j r) = Some m'" "mutex_pcs m' i = Critical"
    using assms(3) by (auto simp: mutex_granted_def)
  then have "mutex_run N (j # sched) m = Some m'" "mutex_pcs m' i = Critical"
    using assms(1,2) by (simp_all add: mutex_after_def split: prod.splits)
  then show ?thesis unfolding mutex_granted_def by blast
qed

lemma mutex_granted_now: "mutex_pcs m i = Critical \<Longrightarrow> mutex_granted N i m"
  unfolding mutex_granted_def by (rule exI [of _ "[]"]) simp

lemma mutex_after_inv:
  assumes "mutex_inv N m" and "N < 2 ^ 32" and "j < N"
    and "mutex_next (mutex_key m) (mutex_sema m) (mutex_pcs m j) = Some r"
  shows "mutex_inv N (mutex_after m j r)"
proof (cases r)
  case (fields key sema pc)
  then have "mutex_step N m (mutex_after m j r)"
    using mutex_step.step [OF assms(3)] assms(4) by (simp add: mutex_after_def)
  then show ?thesis by (rule mutex_inv_step [OF assms(1) _ assms(2)])
qed

text \<open>
  The one token reaches a sleeper from wherever it is: from the semaphore in one step, from a
  goroutine about to release the semaphore, and from the holder through its \<^verbatim>\<open>Unlock\<close>, whose
  compare-and-swap may have to be repeated once.
\<close>

lemma mutex_granted_sema:
  assumes "i < N" and "mutex_pcs m i = Sleep" and "mutex_sema m \<noteq> 0"
  shows "mutex_granted N i m"
  by (rule mutex_granted_step [OF assms(1)], use assms in simp, rule mutex_granted_now)
    (simp add: mutex_after_def)

lemma mutex_granted_wake:
  assumes "mutex_inv N m" and "i < N" and "mutex_pcs m i = Sleep" and "j < N" and "mutex_pcs m j = Wake"
  shows "mutex_granted N i m"
proof (rule mutex_granted_step [OF assms(4)])
  show "mutex_next (mutex_key m) (mutex_sema m) (mutex_pcs m j) = Some (mutex_key m, mutex_sema m + 1, Idle)"
    using assms(5) by simp
  have "0 < count N (\<lambda>p. p = Wake) (mutex_pcs m)" by (rule count_pos [OF assms(4)]) (simp add: assms(5))
  then have "unat (mutex_sema m) = 0" using mutex_inv_token [OF assms(1)] by simp
  then show "mutex_granted N i (mutex_after m j (mutex_key m, mutex_sema m + 1, Idle))"
    using assms by (intro mutex_granted_sema) (auto simp: mutex_after_def unat_eq_zero)
qed

lemma mutex_granted_cas:
  assumes "mutex_inv N m" and "N < 2 ^ 32" and "i < N" and "mutex_pcs m i = Sleep"
    and "j < N" and "mutex_pcs m j = UnlockCas (mutex_key m)"
  shows "mutex_granted N i m"
proof (rule mutex_granted_step [OF assms(5)])
  have "0 < count N holds_mutex (mutex_pcs m)" by (rule count_pos [OF assms(5)]) (simp add: assms(6))
  moreover have "0 < count N (\<lambda>p. p = Sleep) (mutex_pcs m)" by (rule count_pos [OF assms(3)]) (simp add: assms(4))
  ultimately have "unat (mutex_key m) \<ge> 2" using assms(1) by (simp add: mutex_inv_def)
  then have "mutex_key m - 1 \<noteq> 0" by (metis diff_eq_eq add_0 unat_1 not_less_eq_eq numeral_2_eq_2 One_nat_def order_refl)
  then show *: "mutex_next (mutex_key m) (mutex_sema m) (mutex_pcs m j) = Some (mutex_key m - 1, mutex_sema m, Wake)"
    using assms(6) by simp
  show "mutex_granted N i (mutex_after m j (mutex_key m - 1, mutex_sema m, Wake))"
    using assms by (intro mutex_granted_wake [of _ _ _ j] mutex_after_inv *) (auto simp: mutex_after_def)
qed

lemma mutex_granted_load:
  assumes "mutex_inv N m" and "N < 2 ^ 32" and "i < N" and "mutex_pcs m i = Sleep"
    and "j < N" and "mutex_pcs m j = UnlockLoad"
  shows "mutex_granted N i m"
proof (rule mutex_granted_step [OF assms(5)])
  show *: "mutex_next (mutex_key m) (mutex_sema m) (mutex_pcs m j) =
      Some (mutex_key m, mutex_sema m, UnlockCas (mutex_key m))"
    using assms(6) by simp
  show "mutex_granted N i (mutex_after m j (mutex_key m, mutex_sema m, UnlockCas (mutex_key m)))"
    using assms by (intro mutex_granted_cas [of _ _ _ j] mutex_after_inv *) (auto simp: mutex_after_def)
qed

lemma mutex_granted_holder:
  assumes "mutex_inv N m" and "N < 2 ^ 32" and "i < N" and "mutex_pcs m i = Sleep"
    and "j < N" and "holds_mutex (mutex_pcs m j)"
  shows "mutex_granted N i m"
proof (cases "mutex_next (mutex_key m) (mutex_sema m) (mutex_pcs m j) = Some (mutex_key m, mutex_sema m, UnlockLoad)")
  case *: True
  have "mutex_pcs m j \<noteq> Sleep" using assms(6) by (cases "mutex_pcs m j") simp_all
  then have "mutex_granted N i (mutex_after m j (mutex_key m, mutex_sema m, UnlockLoad))"
    using assms by (intro mutex_granted_load [of _ _ _ j] mutex_after_inv *) (auto simp: mutex_after_def)
  then show ?thesis by (rule mutex_granted_step [OF assms(5) *])
next
  case False
  then have "mutex_pcs m j = UnlockLoad \<or> mutex_pcs m j = UnlockCas (mutex_key m)"
    using assms(6) by (cases "mutex_pcs m j") (auto split: if_splits)
  then show ?thesis using mutex_granted_load [OF assms(1-5)] mutex_granted_cas [OF assms(1-5)] by blast
qed

text \<open>
  C35: no wake-up is lost. In every reachable state in which a goroutine sleeps in \<^verbatim>\<open>Lock\<close> there is a
  continuation, by steps of the goroutines that hold the lock or are about to release it, after
  which that goroutine's \<^verbatim>\<open>Lock\<close> has returned: neither the mutex nor its semaphore can get stuck.
\<close>

theorem mutex_no_lost_wakeup:
  assumes "mutex_reachable N m" and "N < 2 ^ 32" and "i < N" and "mutex_pcs m i = Sleep"
  shows "mutex_granted N i m"
proof -
  have inv: "mutex_inv N m" by (rule mutex_reachable_inv [OF assms(1,2)])
  have "0 < count N (\<lambda>p. p = Sleep) (mutex_pcs m)" by (rule count_pos [OF assms(3)]) (simp add: assms(4))
  then have "count N holds_mutex (mutex_pcs m) + count N (\<lambda>p. p = Wake) (mutex_pcs m) + unat (mutex_sema m) \<noteq> 0"
    using inv by (simp add: mutex_inv_def)
  then consider "mutex_sema m \<noteq> 0" | "count N (\<lambda>p. p = Wake) (mutex_pcs m) \<noteq> 0"
    | "count N holds_mutex (mutex_pcs m) \<noteq> 0"
    by (metis add_is_0 unat_0)
  then show ?thesis
    using mutex_granted_sema [OF assms(3,4)] mutex_granted_wake [OF inv assms(3,4)]
      mutex_granted_holder [OF inv assms(2-4)] by cases (auto simp: count_0)
qed

text \<open>Goroutine 0 has the lock and goroutine 1 sleeps.\<close>

definition mutex_contended :: mutex where
  "mutex_contended = \<lparr>mutex_key = 2, mutex_sema = 0, mutex_pcs = (\<lambda>_. Idle)(0 := Critical, 1 := Sleep)\<rparr>"

lemma mutex_contended_reachable: "mutex_reachable 2 mutex_contended"
proof (rule mutex_run_reachable [OF _ mutex_reachable.start])
  show "mutex_run 2 [0, 0, 0, 1, 1, 1] mutex_zero = Some mutex_contended"
    by (simp add: mutex_zero_def mutex_contended_def)
qed

theorem mutex_no_lost_wakeup_witness:
  "mutex_reachable 2 mutex_contended \<and> mutex_pcs mutex_contended 1 = Sleep \<and> mutex_granted 2 1 mutex_contended"
  using mutex_no_lost_wakeup [OF mutex_contended_reachable, of 1] mutex_contended_reachable
  by (simp add: mutex_contended_def)

subsection \<open>\<^verbatim>\<open>Unlock\<close> of an unlocked mutex\<close>


end
