(* ===== verification/Spec2Isabelle.thy ===== *)
theory Spec2Isabelle
  imports Md4 Md5 Sha1 Sha256 Sha512 Ripemd160 Adler32 Crc Hmac Sort Heap Utf16 Hex Base64_Decoder
    Aes Xtea Blowfish Rc4 Sync_Mutex
begin

text \<open>
  A verification library for packages of the Go standard library of 2010 (\<^verbatim>\<open>src/src/pkg\<close>). File names
  below are relative to that directory.

  \<^bold>\<open>How the code is modelled.\<close> Each package is a theory, in the order of its source. A struct is a
  \<^theory_text>\<open>record\<close>, a sized integer a word of its width (so that \<open>+\<close> and \<open>-\<close> wrap as in Go), a slice or array
  a list, \<^verbatim>\<open>int\<close> a natural or an integer where the code can make it negative. A method takes the
  struct and returns the new one with its results. A panic, and an \<^verbatim>\<open>os.Error\<close> that ends the call, is
  \<open>Inl\<close> of the sum type \<open>'a go\<close>; where a call returns a value together with an error, the model returns
  both. An interface value is a record of its methods (\<open>hash_ops\<close>, \<open>sort_ops\<close>, \<open>heap_ops\<close>,
  \<open>reader_ops\<close>, \<open>writer_ops\<close>, \<open>cipher_ops\<close>), and what a client of the interface relies on is a locale over
  that record, which the packages that implement it interpret. A loop is a structural recursion or a
  \<^theory_text>\<open>function\<close> with its termination proof; a loop over an interface value that may never end is a
  \<^theory_text>\<open>partial_function (option)\<close>, and then the properties prove that it returns. No definition uses fuel.

  \<^descr> \<open>Go_Prelude\<close>: the words, the sum type for errors, \<^verbatim>\<open>copy\<close> between slices, bytes of words, and the
  lemmas the components share.

  \<^descr> \<open>Hash_Iface\<close>, \<open>Digest\<close>: \<^verbatim>\<open>hash/hash.go\<close> and the buffering that the six block digests repeat. The
  locale \<open>hash_iface\<close> is the contract of \<^verbatim>\<open>hash.Hash\<close>; \<open>block_digest\<close> proves it once for any compression
  function, and \<open>packaged_digest\<close> passes it on to the packages.

  \<^descr> \<open>Md4\<close>, \<open>Md5\<close>, \<open>Sha1\<close>, \<open>Sha256\<close>, \<open>Sha512\<close>, \<open>Ripemd160\<close>: the directories of those names in
  \<^verbatim>\<open>crypto\<close>, with tables and round functions. \<open>Adler32\<close>, \<open>Crc\<close>: \<^verbatim>\<open>hash/adler32\<close>, \<^verbatim>\<open>hash/crc32\<close>, \<^verbatim>\<open>hash/crc64\<close>.
  \<open>Hmac\<close>: \<^verbatim>\<open>crypto/hmac\<close> over any \<^verbatim>\<open>hash.Hash\<close>, through the locale \<open>hmac_hash\<close>.

  \<^descr> \<open>Sort\<close>, \<open>Vector\<close>, \<open>Heap\<close>: \<^verbatim>\<open>sort/sort.go\<close> over \<^verbatim>\<open>sort.Interface\<close> (locale \<open>sort_iface\<close>),
  \<^verbatim>\<open>container/vector/vector.go\<close> with length and capacity, and \<^verbatim>\<open>container/heap/heap.go\<close> over
  \<^verbatim>\<open>heap.Interface\<close> (locale \<open>heap_iface\<close>), interpreted on the vector.

  \<^descr> \<open>Utf8\<close>, \<open>Utf16\<close>, \<open>Hex\<close>, \<open>Base64\<close>, \<open>Base64_Decoder\<close>: \<^verbatim>\<open>utf8/utf8.go\<close>, \<^verbatim>\<open>utf16/utf16.go\<close>, \<^verbatim>\<open>encoding/hex\<close>
  and \<^verbatim>\<open>encoding/base64\<close> with its stream encoder and decoder.

  \<^descr> \<open>Io\<close>, \<open>Bytes_Buffer\<close>: the functions of \<^verbatim>\<open>io/io.go\<close> over any \<^verbatim>\<open>Reader\<close> and \<^verbatim>\<open>Writer\<close> (locales
  \<open>io_source\<close>, \<open>io_sink\<close>, \<open>io_writer\<close>, \<open>io_copy\<close>, \<open>io_copy_sink\<close>) and \<^verbatim>\<open>bytes/buffer.go\<close>, which interprets them.

  \<^descr> \<open>Block_Cipher\<close>, \<open>Xtea\<close>, \<open>Blowfish\<close>, \<open>Aes_Tables\<close>, \<open>Aes\<close>, \<open>Rc4\<close>: the interface of
  \<^verbatim>\<open>crypto/block/cipher.go\<close> with its contract \<open>block_cipher\<close>, the three block ciphers that interpret
  it, and the stream cipher \<^verbatim>\<open>crypto/rc4\<close>.

  \<^descr> \<open>Sync_Mutex\<close>: \<^verbatim>\<open>sync/mutex.go\<close>, as the atomic steps of any number of goroutines.

  \<^bold>\<open>What is shown.\<close> The digests refine the fold of their compression function over the padded message,
  however the data is cut into writes, and give the published test vectors; the checksums equal
  their bit-serial and RFC definitions without overflow; HMAC is the formula of FIPS 198. \<^verbatim>\<open>Sort\<close> sorts
  and terminates for every input, the heap is a priority queue, the vector refines a list, the
  buffer a queue of bytes. Encoders and decoders are inverse to each other, reject what they should, and
  the streams agree with the one-shot functions. The ciphers are permutations that \<^verbatim>\<open>Decrypt\<close>
  inverts, and the tables of AES are those of FIPS 197. Every interleaving of \<^verbatim>\<open>Lock\<close> and \<^verbatim>\<open>Unlock\<close> excludes, and no
  wake-up is lost. Where the code differs from its comments a theorem says how.

  \<^bold>\<open>Bounds.\<close> Lengths of slices are unbounded naturals; the bit count of the digests is a 64-bit word and
  wraps as in the code. The number of goroutines of the mutex is below \<open>2 ^ 32\<close>, since \<^verbatim>\<open>key\<close> counts them.

  \<^bold>\<open>What is not modelled.\<close> Aliasing of the two slices of a call (each is a value); the message texts of
  the errors; the assembly of \<^verbatim>\<open>sync\<close> and the scheduler of \<^verbatim>\<open>runtime\<close>, whose atomic operations and semaphores are
  steps; packages over the operating system, the network, floating point and reflection.
\<close>

section \<open>The block digests\<close>

text \<open>
  C1: the packages \<^verbatim>\<open>sha1\<close>, \<^verbatim>\<open>sha256\<close> (with SHA-224) and \<^verbatim>\<open>sha512\<close> (with SHA-384) keep the
  contract of \<^verbatim>\<open>hash.Hash\<close>: however the data is cut into calls of \<^verbatim>\<open>Write\<close>, \<^verbatim>\<open>Sum\<close> does not
  panic and returns the bytes of the compression function folded over the blocks of the
  padded message; \<^verbatim>\<open>Reset\<close> starts a new message; \<^verbatim>\<open>Write\<close> reports every byte as written.
\<close>

theorem sha_streams:
  "hash_streams sha1_ops sha1_New sha1_hash \<and>
   hash_streams sha256_ops sha256_New sha256_hash \<and>
   hash_streams sha256_ops sha256_New224 sha256_hash224 \<and>
   hash_streams sha512_ops sha512_New sha512_hash \<and>
   hash_streams sha512_ops sha512_New384 sha512_hash384"
  by (simp add: sha1_streams sha256_streams sha256_streams224 sha512_streams sha512_streams384)

text \<open>
  C2: the packages \<^verbatim>\<open>md4\<close>, \<^verbatim>\<open>md5\<close> and \<^verbatim>\<open>ripemd160\<close>, which store lengths and words with the
  low byte first, keep the same contract.
\<close>

theorem md_streams:
  "hash_streams md4_ops md4_New md4_hash \<and>
   hash_streams md5_ops md5_New md5_hash \<and>
   hash_streams ripemd160_ops ripemd160_New ripemd160_hash"
  by (simp add: md4_streams md5_streams ripemd160_streams)


section \<open>Checksums\<close>

text \<open>
  C6: \<^verbatim>\<open>adler32.Checksum\<close>, which delays its remainders, is the checksum of RFC 1950, and
  the package keeps the contract of \<^verbatim>\<open>hash.Hash\<close> with it.
\<close>

theorem adler32_rfc1950:
  "unat (adler32_Checksum m) = adler32_ref m \<and>
   hash_streams adler32_ops adler32_New (\<lambda>m. be_bytes 4 (adler32_Checksum m))"
  by (simp add: adler32_Checksum_ref adler32_streams)

text \<open>
  C7: the invariants in the comments of \<^verbatim>\<open>adler32.digest\<close> hold after any input, and under
  them neither addition of the next byte's step wraps around.
\<close>

theorem adler32_no_overflow:
  "case adler32_update 1 0 m of
     (a, b) \<Rightarrow> adler32_inv a b \<and>
       unat (a + ucast (x :: byte)) = unat a + unat x \<and>
       unat (b + (a + ucast x)) = unat b + unat a + unat x"
proof (cases "adler32_update 1 0 m")
  case (Pair a b)
  with adler32_no_wrap [OF adler32_inv_update [OF Pair], of x] show ?thesis
    by (simp add: adler32_inv_update)
qed

text \<open>
  C5: the table-driven \<^verbatim>\<open>crc32.Update\<close> and \<^verbatim>\<open>crc64.Update\<close>, for the table of any polynomial,
  compute what the bit-serial shift register computes; updating in pieces is updating with
  the concatenation.
\<close>

theorem crc_bit_serial:
  "crc32_Update crc (crc32_MakeTable poly) p = crc_ref poly crc p \<and>
   crc64_Update crc' (crc64_MakeTable poly') p = crc_ref poly' crc' p \<and>
   crc32_Checksum p (crc32_MakeTable poly) = crc_ref poly 0 p \<and>
   crc64_Checksum p (crc64_MakeTable poly') = crc_ref poly' 0 p \<and>
   crc32_ChecksumIEEE p = crc_ref crc32_IEEE 0 p \<and>
   crc32_Update (crc32_Update crc tab p) tab q = crc32_Update crc tab (p @ q) \<and>
   crc64_Update (crc64_Update crc' tab' p) tab' q = crc64_Update crc' tab' (p @ q)"
  by (simp add: crc32_Update_def crc64_Update_def crc32_MakeTable_def crc64_MakeTable_def
      crc32_Checksum_def crc64_Checksum_def crc32_ChecksumIEEE_def crc32_IEEETable_def
      crc_update_ref crc_update_append)

text \<open>
  C10: \<^verbatim>\<open>crc32\<close> keeps the contract of \<^verbatim>\<open>hash.Hash\<close> with the big-endian bytes of its checksum,
  for every table.
\<close>

theorem crc32_streams:
  "hash_streams crc32_ops (crc32_New tab) (\<lambda>m. be_bytes 4 (crc32_Checksum m tab))"
  by (rule crc32.streams)

text \<open>
  C11: \<^verbatim>\<open>crc64.Sum\<close> does not return the big-endian bytes of \<^verbatim>\<open>Sum64\<close>: after one zero byte with
  the ISO table its first byte is 0xBE where the checksum begins with 0x6F, because the code
  shifts by 54 and not by 56.
\<close>

theorem crc64_Sum_first_byte:
  "let d = fst (crc64_Write (crc64_New (crc64_MakeTable crc64_ISO)) [0])
   in crc64_Sum64 d = 0x6F90000000000000 \<and>
      crc64_Sum d = Inr [0xBE, 0x90, 0, 0, 0, 0, 0, 0] \<and>
      be_bytes 8 (crc64_Sum64 d) = [0x6F, 0x90, 0, 0, 0, 0, 0, 0]"
proof -
  have "crc_update 0 (crc64_MakeTable crc64_ISO) [0] = crc_ref crc64_ISO 0 [0]"
    by (simp add: crc64_MakeTable_def crc_update_ref)
  also have "\<dots> = 0x6F90000000000000" by code_simp
  finally have crc: "crc_update 0 (crc64_MakeTable crc64_ISO) [0] = 0x6F90000000000000" .
  have "map (\<lambda>k. byte_at k (0x6F90000000000000 :: uint64)) [56, 54, 48, 40, 32, 24, 16, 8, 0] =
      [0x6F, 0xBE, 0x90, 0, 0, 0, 0, 0, 0]"
    by code_simp
  then show ?thesis
    by (simp add: crc64_Write_def crc64_New_def crc crc64_Sum64_def crc64_Sum_def be_bytes_def
        upt_rec eval_nat_numeral)
qed

section \<open>Keyed hashes\<close>

text \<open>
  C3: \<^verbatim>\<open>hmac.NewMD5\<close> and \<^verbatim>\<open>hmac.NewSHA1\<close> do not fail, and the sum after any sequence of
  writes is the formula of FIPS 198 on the key and the bytes written, for keys of any length;
  after a \<^verbatim>\<open>Reset\<close> the same struct computes it for the next message.
\<close>

theorem hmac_fips198:
  "(\<exists>h h'. hmac_NewMD5 key = Inr h \<and>
      hmac_Sum md5_ops (hmac_Writes md5_ops h ps) = Inr (h', hmac_ref md5_hash key (concat ps)) \<and>
      (\<exists>h''. hmac_Sum md5_ops (hmac_Writes md5_ops (hmac_Reset md5_ops h') qs) =
         Inr (h'', hmac_ref md5_hash key (concat qs)))) \<and>
   (\<exists>h h'. hmac_NewSHA1 key = Inr h \<and>
      hmac_Sum sha1_ops (hmac_Writes sha1_ops h ps) = Inr (h', hmac_ref sha1_hash key (concat ps)) \<and>
      (\<exists>h''. hmac_Sum sha1_ops (hmac_Writes sha1_ops (hmac_Reset sha1_ops h') qs) =
         Inr (h'', hmac_ref sha1_hash key (concat qs))))"
  unfolding hmac_NewMD5_def hmac_NewSHA1_def md5_hash_def [abs_def] sha1_hash_def [abs_def]
  by (intro conjI hmac_md5.hmac_correct hmac_sha1.hmac_correct)


section \<open>Ciphers\<close>

text \<open>
  C32: \<^verbatim>\<open>NewCipher\<close> of \<^verbatim>\<open>aes\<close>, \<^verbatim>\<open>blowfish\<close> and \<^verbatim>\<open>xtea\<close> accepts exactly the key sizes of its comment
  and reports any other size, and with every key it accepts \<^verbatim>\<open>Encrypt\<close> and \<^verbatim>\<open>Decrypt\<close> are inverse
  permutations of the blocks, in either order, which write one block of \<^verbatim>\<open>dst\<close> and panic
  if \<^verbatim>\<open>src\<close> or \<^verbatim>\<open>dst\<close> is too short.
\<close>

theorem ciphers_inverse:
  "(case aes_NewCipher key of
      Inl n \<Rightarrow> n = length key \<and> n \<notin> {16, 24, 32}
    | Inr c \<Rightarrow> length key \<in> {16, 24, 32} \<and> cipher_inverse aes_ops c 16) \<and>
   (case blowfish_NewCipher key of
      Inl n \<Rightarrow> n = length key \<and> n \<notin> {4..56}
    | Inr c \<Rightarrow> length key \<in> {4..56} \<and> cipher_inverse blowfish_ops c 8) \<and>
   (case xtea_NewCipher key of
      Inl n \<Rightarrow> n = length key \<and> n \<noteq> 16
    | Inr c \<Rightarrow> length key = 16 \<and> cipher_inverse xtea_ops c 8)"
proof (intro conjI)
  have "cipher_inverse aes_ops c 16" if "aes_NewCipher key = Inr c" for c
    by (rule aes.inverse [OF aes_NewCipher_ok [OF that]])
  then show "case aes_NewCipher key of Inl n \<Rightarrow> n = length key \<and> n \<notin> {16, 24, 32}
    | Inr c \<Rightarrow> length key \<in> {16, 24, 32} \<and> cipher_inverse aes_ops c 16"
    by (auto simp: aes_NewCipher_def Let_def)
  show "case blowfish_NewCipher key of Inl n \<Rightarrow> n = length key \<and> n \<notin> {4..56}
    | Inr c \<Rightarrow> length key \<in> {4..56} \<and> cipher_inverse blowfish_ops c 8"
    by (auto simp: blowfish_NewCipher_def Let_def blowfish.inverse)
  show "case xtea_NewCipher key of Inl n \<Rightarrow> n = length key \<and> n \<noteq> 16
    | Inr c \<Rightarrow> length key = 16 \<and> cipher_inverse xtea_ops c 8"
    by (auto simp: xtea_NewCipher_def xtea.inverse)
qed

text \<open>
  C33: the table lookups of \<^verbatim>\<open>aes\<close> compute the rounds of FIPS 197. A round of \<^verbatim>\<open>encryptBlock\<close> is
  SubBytes and ShiftRows, then MixColumns on every column, then AddRoundKey; a round of
  \<^verbatim>\<open>decryptBlock\<close> is the round of the equivalent inverse cipher. \<^verbatim>\<open>sbox1\<close> inverts \<^verbatim>\<open>sbox0\<close>, and the
  column operations of the two, products in the field of 256 elements, are inverse to each other.
\<close>

theorem aes_fips197:
  "aes_encrypt_round xk k s = aes_addkey xk k (aes_map aes_mix (aes_subshift s)) \<and>
   aes_decrypt_round xk k s = aes_addkey xk k (aes_map aes_unmix (aes_unsubshift s)) \<and>
   aes_unsubshift (aes_subshift s) = s \<and>
   aes_IS (aes_S b) = b \<and> aes_unmix (aes_mix w) = w"
  by (simp add: aes_encrypt_round_eq aes_decrypt_round_eq aes_unsubshift_subshift aes_IS_S aes_unmix_mix)

end
